theory Spec2Isabelle
  imports Main "HOL-Library.AList"
begin

section \<open>Strings of the host language\<close>

text \<open>
  A JavaScript string is modelled as a \<^typ>\<open>string\<close>: the list of its code units, each
  below 256 (Isabelle's \<^typ>\<open>char\<close>, read as U+0000 .. U+00FF).  The built-in string
  methods the sources call are written out on that range as ECMAScript defines them.
\<close>

text \<open>\<open>String.prototype.toLowerCase\<close>: A-Z and the Latin-1 capitals (U+00C0 .. U+00DE
  without the multiplication sign U+00D7) move up by 32, every other unit stays.\<close>

definition lowerChar :: "char \<Rightarrow> char" where
  "lowerChar c =
     (let n = (of_char c :: nat)
      in if (65 \<le> n \<and> n \<le> 90) \<or> (192 \<le> n \<and> n \<le> 222 \<and> n \<noteq> 215)
         then char_of (n + 32) else c)"

definition toLowerCase :: "string \<Rightarrow> string" where
  "toLowerCase s = map lowerChar s"

text \<open>White space and line terminators of ECMAScript below 256: TAB, LF, VT, FF, CR,
  SPACE and NBSP.  \<open>String.prototype.trim\<close> strips them from both ends.\<close>

definition isWhiteSpace :: "char \<Rightarrow> bool" where
  "isWhiteSpace c =
     (let n = (of_char c :: nat) in (9 \<le> n \<and> n \<le> 13) \<or> n = 32 \<or> n = 160)"

definition trim :: "string \<Rightarrow> string" where
  "trim s = rev (dropWhile isWhiteSpace (rev (dropWhile isWhiteSpace s)))"

definition startsWith :: "string \<Rightarrow> string \<Rightarrow> bool" where
  "startsWith s p = (take (length p) s = p)"

definition endsWith :: "string \<Rightarrow> string \<Rightarrow> bool" where
  "endsWith s p = (length p \<le> length s \<and> drop (length s - length p) s = p)"

text \<open>\<open>s.split(c)\<close> for a separator of one code unit: never empty, \<open>''.split(c)\<close> is
  \<open>['']\<close>.\<close>

fun splitOn :: "char \<Rightarrow> string \<Rightarrow> string list" where
  "splitOn c [] = [[]]"
| "splitOn c (x # xs) =
     (if x = c then [] # splitOn c xs
      else (case splitOn c xs of [] \<Rightarrow> [[x]] | y # ys \<Rightarrow> (x # y) # ys))"

text \<open>\<open>xs.join(c)\<close>.\<close>

fun joinWith :: "char \<Rightarrow> string list \<Rightarrow> string" where
  "joinWith c [] = []"
| "joinWith c [x] = x"
| "joinWith c (x # y # ys) = x @ c # joinWith c (y # ys)"

text \<open>\<open>s.split(/\r?\n/)\<close>: the separators are the line feeds, each together with a
  carriage return right before it.\<close>

definition dropCR :: "string \<Rightarrow> string" where
  "dropCR s = (if s \<noteq> [] \<and> last s = CHR 0x0D then butlast s else s)"

definition splitLines :: "string \<Rightarrow> string list" where
  "splitLines s =
     (let ps = splitOn (CHR 0x0A) s in map dropCR (butlast ps) @ [last ps])"

text \<open>JavaScript truthiness of a possibly absent string: \<open>undefined\<close>, \<open>null\<close> and
  \<open>''\<close> are falsy.  \<open>a || b\<close> is \<open>orElse a b\<close>.\<close>

fun truthy :: "string option \<Rightarrow> bool" where
  "truthy None = False"
| "truthy (Some s) = (s \<noteq> [])"

definition orElse :: "string option \<Rightarrow> string option \<Rightarrow> string option" where
  "orElse a b = (if truthy a then a else b)"

definition orDefault :: "string option \<Rightarrow> string \<Rightarrow> string" where
  "orDefault a d = (case a of Some s \<Rightarrow> (if s \<noteq> [] then s else d) | None \<Rightarrow> d)"

section \<open>Environment maps\<close>

text \<open>
  \<open>Record<string, string>\<close>: the entries in the order \<open>Object.keys\<close> lists them.
  Reading is \<^const>\<open>map_of\<close>; assigning \<open>env[k] = v\<close> is \<^const>\<open>AList.update\<close>, which
  overwrites the entry in place or appends a new one at the end.  Keys that are array
  indices, which \<open>Object.keys\<close> lists before the others, are not set apart: the sources
  search keys by their lower-cased name only, and such a key has the lower-cased name of
  no other key.
\<close>

type_synonym env = "(string \<times> string) list"

definition envGet :: "env \<Rightarrow> string \<Rightarrow> string option" where
  "envGet e k = map_of e k"

definition envSet :: "env \<Rightarrow> string \<Rightarrow> string \<Rightarrow> env" where
  "envSet e k v = AList.update k v e"

definition envKeys :: "env \<Rightarrow> string list" where
  "envKeys e = map fst e"

section \<open>The host: platform, process and library\<close>

text \<open>
  Everything the sources read from outside the repository is a field of the host:
  the platform constants of \<open>@main/constant\<close>, \<open>process.env\<close>, \<open>process.cwd()\<close>,
  \<open>os.homedir()\<close>, the functions of Node's \<open>path\<close> module for the platform, the file
  system and the outcome of every child process.  The theorems hold for every host.
\<close>

datatype shell_outcome =
    ShellError
  | ShellTimeout
  | ShellClose "int option" string string

datatype child_outcome =
    ChildError
  | ChildTimeout
  | ChildClose "int option" "string list"

record host =
  isWin :: bool
  isMac :: bool
  process_env :: env
  process_cwd :: string
  os_homedir :: string
  path_join :: "string list \<Rightarrow> string"
  path_normalize :: "string \<Rightarrow> string"
  path_resolve :: "string \<Rightarrow> string"
  path_dirname :: "string \<Rightarrow> string"
  path_isAbsolute :: "string \<Rightarrow> bool"
  fs_existsSync :: "string \<Rightarrow> bool"
  reg_query :: "string \<Rightarrow> string \<Rightarrow> string option"
  where_exe :: "string \<Rightarrow> env option \<Rightarrow> string option"
  login_shell :: "string \<Rightarrow> string \<Rightarrow> shell_outcome"
  lookup_child :: "string \<Rightarrow> string list \<Rightarrow> env \<Rightarrow> child_outcome"

text \<open>\<open>path.sep\<close>.\<close>

definition path_sep :: "host \<Rightarrow> string" where
  "path_sep h = (if isWin h then [CHR 0x5C] else ''/'')"

subsection \<open>Node's \<open>path.posix\<close>\<close>

text \<open>
  \<open>path.posix.normalize\<close> and \<open>path.posix.join\<close>, as Node computes them: the segments
  between slashes are scanned from the left, empty and \<open>.\<close> segments vanish, \<open>..\<close> removes
  the segment before it (or stays, in a relative path that has none left), and a
  trailing slash is kept.
\<close>

definition normalizeStep :: "bool \<Rightarrow> string list \<Rightarrow> string \<Rightarrow> string list" where
  "normalizeStep allowAboveRoot res seg =
     (if seg = [] \<or> seg = ''.'' then res
      else if seg = ''..'' then
        (if res \<noteq> [] \<and> last res \<noteq> ''..'' then butlast res
         else if allowAboveRoot then res @ [''..''] else res)
      else res @ [seg])"

definition posixNormalize :: "string \<Rightarrow> string" where
  "posixNormalize p =
     (if p = [] then ''.''
      else
        let isAbsolute = (hd p = CHR ''/'');
            trailingSeparator = (last p = CHR ''/'');
            res = joinWith (CHR ''/'')
                    (foldl (normalizeStep (\<not> isAbsolute)) [] (splitOn (CHR ''/'') p))
        in if res = [] then
             (if isAbsolute then ''/'' else if trailingSeparator then ''./'' else ''.'')
           else (if isAbsolute then ''/'' else [])
                  @ res @ (if trailingSeparator then ''/'' else []))"

definition posixJoin :: "string list \<Rightarrow> string" where
  "posixJoin args =
     (let parts = filter (\<lambda>a. a \<noteq> []) args
      in if parts = [] then ''.'' else posixNormalize (joinWith (CHR ''/'') parts))"

section \<open>shell-env: the tool-bin directory on PATH\<close>

definition pathSeparator :: "host \<Rightarrow> char" where
  "pathSeparator h = (if isWin h then CHR '';'' else CHR '':'')"

definition homeDirFromEnv :: "host \<Rightarrow> env \<Rightarrow> string" where
  "homeDirFromEnv h env =
     orDefault
       (orElse (envGet env ''HOME'')
         (orElse (envGet env ''Home'')
           (orElse (envGet env ''USERPROFILE'') (envGet env ''UserProfile''))))
       (os_homedir h)"

definition cherryBinPath :: "host \<Rightarrow> env \<Rightarrow> string" where
  "cherryBinPath h env = path_join h [homeDirFromEnv h env, ''.cherrystudio'', ''bin'']"

definition pathKeysOf :: "env \<Rightarrow> string list" where
  "pathKeysOf env = filter (\<lambda>key. toLowerCase key = ''path'') (envKeys env)"

definition canonicalPathKey :: "host \<Rightarrow> env \<Rightarrow> string" where
  "canonicalPathKey h env =
     (case pathKeysOf env of key # _ \<Rightarrow> key
      | [] \<Rightarrow> (if isWin h then ''Path'' else ''PATH''))"

definition existingPathValue :: "host \<Rightarrow> env \<Rightarrow> string" where
  "existingPathValue h env =
     orDefault (orElse (envGet env (canonicalPathKey h env)) (envGet env ''PATH'')) []"

definition normaliseSegment :: "host \<Rightarrow> string \<Rightarrow> string" where
  "normaliseSegment h segment =
     (let normalized = path_normalize h segment
      in if isWin h then toLowerCase normalized else normalized)"

text \<open>The closure \<open>pushIfUnique\<close> with the two variables it updates,
  \<open>uniqueSegments\<close> and \<open>seenSegments\<close>, as its state.\<close>

definition pushIfUnique ::
  "host \<Rightarrow> string list \<times> string set \<Rightarrow> string \<Rightarrow> string list \<times> string set" where
  "pushIfUnique h st segment =
     (if segment = [] then st
      else
        let canonicalSegment = normaliseSegment h segment
        in if canonicalSegment \<notin> snd st
           then (fst st @ [segment], insert canonicalSegment (snd st))
           else st)"

definition existingSegments :: "host \<Rightarrow> env \<Rightarrow> string list" where
  "existingSegments h env = map trim (splitOn (pathSeparator h) (existingPathValue h env))"

definition uniqueSegments :: "host \<Rightarrow> env \<Rightarrow> string list" where
  "uniqueSegments h env =
     fst (pushIfUnique h (foldl (pushIfUnique h) ([], {}) (existingSegments h env))
            (cherryBinPath h env))"

definition updatedPath :: "host \<Rightarrow> env \<Rightarrow> string" where
  "updatedPath h env = joinWith (pathSeparator h) (uniqueSegments h env)"

definition appendCherryBinToPath :: "host \<Rightarrow> env \<Rightarrow> env" where
  "appendCherryBinToPath h env =
     (let pathKeys = pathKeysOf env;
          env1 = (if pathKeys \<noteq> []
                  then foldl (\<lambda>e key. envSet e key (updatedPath h env)) env pathKeys
                  else envSet env (canonicalPathKey h env) (updatedPath h env))
      in if \<not> isWin h then envSet env1 ''PATH'' (updatedPath h env) else env1)"

subsection \<open>Reading PATH from the Windows registry\<close>

text \<open>The backslash, which a string literal cannot hold.\<close>

abbreviation bs :: char where
  "bs \<equiv> CHR 0x5C"

text \<open>
  The match of \<open>/REG_(?:EXPAND_)?SZ\s+(.*)/i\<close>: at the leftmost position where the type
  name stands with white space after it, the capture is what follows the longest run of
  white space, up to the end of that line.
\<close>

definition regMatchAt :: "string \<Rightarrow> string option" where
  "regMatchAt s =
     (let l = toLowerCase s;
          after = (if startsWith l ''reg_sz'' then Some (drop 6 s)
                   else if startsWith l ''reg_expand_sz'' then Some (drop 13 s)
                   else None)
      in case after of
           None \<Rightarrow> None
         | Some r \<Rightarrow>
             (if r \<noteq> [] \<and> isWhiteSpace (hd r)
              then Some (takeWhile (\<lambda>c. c \<noteq> CHR 0x0A \<and> c \<noteq> CHR 0x0D)
                           (dropWhile isWhiteSpace r))
              else None))"

fun regMatch :: "string \<Rightarrow> string option" where
  "regMatch [] = None"
| "regMatch (c # cs) =
     (case regMatchAt (c # cs) of Some capture \<Rightarrow> Some capture | None \<Rightarrow> regMatch cs)"

text \<open>\<open>reg_query h keyPath valueName\<close> is the output of
  \<open>execFileSync('reg', ['query', keyPath, '/v', valueName])\<close>, \<open>None\<close> when it throws.\<close>

definition queryRegValue :: "host \<Rightarrow> string \<Rightarrow> string \<Rightarrow> string option" where
  "queryRegValue h keyPath valueName =
     (case reg_query h keyPath valueName of
        None \<Rightarrow> None
      | Some out \<Rightarrow> (case regMatch out of Some capture \<Rightarrow> Some (trim capture) | None \<Rightarrow> None))"

text \<open>The callback of \<open>expandWindowsEnvVars\<close>: the first key, in key order, that equals
  the name when both are lower-cased.\<close>

definition replaceVar :: "env \<Rightarrow> string \<Rightarrow> string" where
  "replaceVar env varName =
     (case find (\<lambda>k. toLowerCase k = toLowerCase varName) (envKeys env) of
        Some key \<Rightarrow>
          (if key \<noteq> [] then (case envGet env key of Some v \<Rightarrow> v | None \<Rightarrow> ''undefined'')
           else CHR ''%'' # varName @ ''%'')
      | None \<Rightarrow> CHR ''%'' # varName @ ''%'')"

text \<open>
  \<open>value.replace(/%([^%]+)%/g, ...)\<close>: scanning from the left, a percent sign opens a
  token when at least one other code unit follows it before the next percent sign, which
  closes the token; the scan goes on behind the closing sign.
\<close>

function expandWindowsEnvVars :: "string \<Rightarrow> env \<Rightarrow> string" where
  "expandWindowsEnvVars [] env = []"
| "expandWindowsEnvVars (c # cs) env =
     (if c = CHR ''%'' \<and> takeWhile (\<lambda>x. x \<noteq> CHR ''%'') cs \<noteq> []
           \<and> dropWhile (\<lambda>x. x \<noteq> CHR ''%'') cs \<noteq> []
      then replaceVar env (takeWhile (\<lambda>x. x \<noteq> CHR ''%'') cs)
             @ expandWindowsEnvVars (tl (dropWhile (\<lambda>x. x \<noteq> CHR ''%'') cs)) env
      else c # expandWindowsEnvVars cs env)"
  by pat_completeness auto
termination
proof (relation "measure (\<lambda>(s, env). length s)")
  show "wf (measure (\<lambda>(s, env). length s))" by simp
next
  fix c :: char and cs :: string and env :: env
  have "length (tl (dropWhile (\<lambda>x. x \<noteq> CHR ''%'') cs)) \<le> length cs"
    using length_dropWhile_le[of "\<lambda>x. x \<noteq> CHR ''%''" cs] by simp
  then show "((tl (dropWhile (\<lambda>x. x \<noteq> CHR ''%'') cs), env), (c # cs, env))
               \<in> measure (\<lambda>(s, env). length s)"
    by simp
next
  fix c :: char and cs :: string and env :: env
  show "((cs, env), (c # cs, env)) \<in> measure (\<lambda>(s, env). length s)" by simp
qed

definition HKLM_Environment :: string where
  "HKLM_Environment =
     joinWith bs [''HKLM'', ''SYSTEM'', ''CurrentControlSet'', ''Control'',
                  ''Session Manager'', ''Environment'']"





subsection \<open>The login shell probe\<close>




subsection \<open>The environment cache\<close>











section \<open>process: looking up executables\<close>

text \<open>What a function does besides returning: the children it spawns and the lines it
  logs, in order.  The log lines are kept where a claim speaks of them.\<close>

datatype level = Debug | Info | Warn | Error

datatype effect =
    Spawn string "string list"
  | Log level

text \<open>\<open>VALID_COMMAND_NAME_REGEX.test\<close>, for \<open>/^[a-zA-Z0-9_][a-zA-Z0-9_-]{0,127}$/\<close>.\<close>

definition isWordChar :: "char \<Rightarrow> bool" where
  "isWordChar c =
     (let n = (of_char c :: nat)
      in (97 \<le> n \<and> n \<le> 122) \<or> (65 \<le> n \<and> n \<le> 90) \<or> (48 \<le> n \<and> n \<le> 57) \<or> n = 95)"

definition isNameChar :: "char \<Rightarrow> bool" where
  "isNameChar c = (isWordChar c \<or> c = CHR ''-'')"

definition VALID_COMMAND_NAME_REGEX :: "string \<Rightarrow> bool" where
  "VALID_COMMAND_NAME_REGEX s =
     (case s of
        [] \<Rightarrow> False
      | c # cs \<Rightarrow> isWordChar c \<and> length cs \<le> 127 \<and> list_all isNameChar cs)"

definition MAX_OUTPUT_SIZE :: nat where
  "MAX_OUTPUT_SIZE = 10240"

text \<open>The \<open>data\<close> handler of the child's stdout, over the chunks it receives.\<close>

definition collectOutput :: "string list \<Rightarrow> string" where
  "collectOutput chunks =
     foldl (\<lambda>output data. if length output < MAX_OUTPUT_SIZE then output @ data else output)
       [] chunks"

text \<open>
  \<open>lookup_child h command args env\<close> is what becomes of the child
  \<open>spawn(command, args, {env})\<close>: the event that resolves the promise first.
\<close>

definition findCommandInShellEnv :: "host \<Rightarrow> string \<Rightarrow> env \<Rightarrow> effect list \<times> string option" where
  "findCommandInShellEnv h command loginShellEnv =
     (if \<not> VALID_COMMAND_NAME_REGEX command then ([Log Warn], None)
      else if isWin h then
        (case lookup_child h ''where'' [command] loginShellEnv of
           ChildTimeout \<Rightarrow> ([Spawn ''where'' [command], Log Debug], None)
         | ChildError \<Rightarrow> ([Spawn ''where'' [command], Log Warn], None)
         | ChildClose code chunks \<Rightarrow>
             (let output = collectOutput chunks
              in if code = Some 0 \<and> trim output \<noteq> [] then
                   (case find (\<lambda>p. endsWith (toLowerCase p) ''.exe'') (splitLines (trim output)) of
                      Some exePath \<Rightarrow> ([Spawn ''where'' [command]], Some exePath)
                    | None \<Rightarrow> ([Spawn ''where'' [command], Log Debug], None))
                 else ([Spawn ''where'' [command], Log Debug], None)))
      else
        (let args = [''-c'', ''command -v '' @ [CHR 0x22] @ ''$1'' @ [CHR 0x22], ''--'', command]
         in case lookup_child h ''/bin/sh'' args loginShellEnv of
              ChildTimeout \<Rightarrow> ([Spawn ''/bin/sh'' args, Log Debug], None)
            | ChildError \<Rightarrow> ([Spawn ''/bin/sh'' args, Log Warn], None)
            | ChildClose code chunks \<Rightarrow>
                (let output = collectOutput chunks
                 in if code = Some 0 \<and> trim output \<noteq> [] then
                      (let commandPath = hd (splitOn (CHR 0x0A) (trim output))
                       in if path_isAbsolute h commandPath
                          then ([Spawn ''/bin/sh'' args], Some commandPath)
                          else ([Spawn ''/bin/sh'' args, Log Debug], None))
                    else ([Spawn ''/bin/sh'' args, Log Debug], None))))"

subsection \<open>\<open>findExecutable\<close>\<close>

definition getCommonGitRoots :: "host \<Rightarrow> string list" where
  "getCommonGitRoots h =
     [path_join h [orDefault (envGet (process_env h) ''ProgramFiles'')
                     (''C:'' @ bs # ''Program Files''), ''Git''],
      path_join h [orDefault (envGet (process_env h) ''ProgramFiles(x86)'')
                     (''C:'' @ bs # ''Program Files (x86)''), ''Git'']]
     @ (if truthy (envGet (process_env h) ''LOCALAPPDATA'')
        then [path_join h [the (envGet (process_env h) ''LOCALAPPDATA''), ''Programs'', ''Git'']]
        else [])"

text \<open>The special handling of \<open>git\<close>: the first common installation root that holds
  \<open>cmd\git.exe\<close>.\<close>

definition commonGitPath :: "host \<Rightarrow> string \<Rightarrow> string option" where
  "commonGitPath h name =
     (if name = ''git''
      then find (fs_existsSync h)
             (map (\<lambda>root. path_join h [root, ''cmd'', ''git.exe'']) (getCommonGitRoots h))
      else None)"

definition hasAllowedExtension :: "string list \<Rightarrow> string \<Rightarrow> bool" where
  "hasAllowedExtension extensions lowerPath =
     list_ex (\<lambda>ext. endsWith lowerPath (toLowerCase ext)) extensions"

text \<open>The test \<open>execDir === currentDir || execDir.startsWith(currentDir + path.sep)\<close>.\<close>

definition inCurrentDir :: "host \<Rightarrow> string \<Rightarrow> bool" where
  "inCurrentDir h cleanPath =
     (let currentDir = toLowerCase (process_cwd h);
          resolvedPath = toLowerCase (path_resolve h cleanPath);
          execDir = toLowerCase (path_dirname h resolvedPath)
      in execDir = currentDir \<or> startsWith execDir (currentDir @ path_sep h))"

text \<open>The loop over the lines of \<open>where.exe\<close>.\<close>

fun scanCandidates :: "host \<Rightarrow> string list \<Rightarrow> string list \<Rightarrow> string option" where
  "scanCandidates h extensions [] = None"
| "scanCandidates h extensions (exePath # paths) =
     (let cleanPath = trim exePath;
          lowerPath = toLowerCase cleanPath
      in if \<not> hasAllowedExtension extensions lowerPath then scanCandidates h extensions paths
         else if inCurrentDir h cleanPath then scanCandidates h extensions paths
         else Some cleanPath)"

text \<open>
  \<open>where_exe h name env\<close> is the output of \<open>execFileSync('where.exe', [name], {env})\<close>,
  \<open>None\<close> when it throws.  The two fields of \<open>options\<close> are two optional arguments.
\<close>

definition findExecutable ::
  "host \<Rightarrow> string \<Rightarrow> string list option \<Rightarrow> env option \<Rightarrow> string option" where
  "findExecutable h name extensionsOpt envOpt =
     (if \<not> isWin h then None
      else
        let extensions = (case extensionsOpt of Some exts \<Rightarrow> exts | None \<Rightarrow> [''.exe'', ''.cmd''])
        in case commonGitPath h name of
             Some gitPath \<Rightarrow> Some gitPath
           | None \<Rightarrow>
               (case where_exe h name envOpt of
                  None \<Rightarrow> None
                | Some result \<Rightarrow>
                    scanCandidates h extensions
                      (filter (\<lambda>p. p \<noteq> []) (splitLines (trim result)))))"

subsection \<open>Git Bash\<close>

text \<open>Modelled from the spec: the type \<open>GitBashPathSource\<close> of \<open>@shared/config/constant\<close>,
  which is not among the sources: "one of env, manual, auto".\<close>

datatype GitBashPathSource = SourceEnv | SourceManual | SourceAuto

record GitBashPathInfo =
  path :: "string option"
  source :: "GitBashPathSource option"

text \<open>Modelled from the spec: the two keys this module reads and writes through
  \<open>configManager\<close>, whose code is not among the sources: a key-value store holding the
  Git Bash path and its discovery source, each possibly absent.\<close>

record config =
  GitBashPath :: "string option"
  GitBashPathSource :: "GitBashPathSource option"

definition validateGitBashPath :: "host \<Rightarrow> string option \<Rightarrow> effect list \<times> string option" where
  "validateGitBashPath h customPath =
     (if \<not> truthy customPath then ([], None)
      else
        let resolved = path_resolve h (the customPath)
        in if \<not> fs_existsSync h resolved then ([Log Warn], None)
           else if \<not> endsWith (toLowerCase resolved) ''bash.exe'' then ([Log Warn], None)
           else ([Log Debug], Some resolved))"

definition possibleBashPaths :: "host \<Rightarrow> string \<Rightarrow> string list" where
  "possibleBashPaths h gitPath =
     [path_join h [gitPath, ''..'', ''..'', ''bin'', ''bash.exe''],
      path_join h [gitPath, ''..'', ''bash.exe''],
      path_join h [gitPath, ''..'', ''..'', ''usr'', ''bin'', ''bash.exe'']]"

definition envOverride :: "host \<Rightarrow> string option" where
  "envOverride h = envGet (process_env h) ''CLAUDE_CODE_GIT_BASH_PATH''"

definition findGitBash :: "host \<Rightarrow> string option \<Rightarrow> string option" where
  "findGitBash h customPath =
     (if \<not> isWin h then None
      else
        let fromCustom = (if truthy customPath then snd (validateGitBashPath h customPath) else None)
        in if truthy fromCustom then fromCustom
           else
             let fromOverride = (if truthy (envOverride h)
                                 then snd (validateGitBashPath h (envOverride h)) else None)
             in if truthy fromOverride then fromOverride
                else
                  let gitPath = findExecutable h ''git'' None None;
                      derived = (if truthy gitPath
                                 then find (fs_existsSync h)
                                        (map (path_resolve h) (possibleBashPaths h (the gitPath)))
                                 else None)
                  in case derived of
                       Some resolvedBashPath \<Rightarrow> Some resolvedBashPath
                     | None \<Rightarrow>
                         find (fs_existsSync h)
                           (map (\<lambda>root. path_join h [root, ''bin'', ''bash.exe''])
                              (getCommonGitRoots h)))"

definition autoDiscoverGitBash :: "host \<Rightarrow> config \<Rightarrow> string option \<times> config" where
  "autoDiscoverGitBash h cfg =
     (if \<not> isWin h then (None, cfg)
      else
        let fromOverride = (if truthy (envOverride h)
                            then snd (validateGitBashPath h (envOverride h)) else None)
        in if truthy fromOverride then (fromOverride, cfg)
           else
             let existingPath = GitBashPath cfg;
                 fromConfig = (if truthy existingPath
                               then snd (validateGitBashPath h existingPath) else None)
             in if truthy fromConfig then (fromConfig, cfg)
                else
                  let discoveredPath = findGitBash h None
                  in if truthy discoveredPath
                     then (discoveredPath,
                           cfg\<lparr>GitBashPath := discoveredPath, GitBashPathSource := Some SourceAuto\<rparr>)
                     else (discoveredPath, cfg))"

definition getGitBashPathInfo :: "host \<Rightarrow> config \<Rightarrow> GitBashPathInfo \<times> config" where
  "getGitBashPathInfo h cfg =
     (if \<not> isWin h then (\<lparr>path = None, source = None\<rparr>, cfg)
      else if \<not> truthy (GitBashPath cfg) then
        (let discovered = autoDiscoverGitBash h cfg
         in (\<lparr>path = fst discovered,
              source = (if truthy (fst discovered) then Some SourceAuto else None)\<rparr>,
             snd discovered))
      else (\<lparr>path = GitBashPath cfg, source = GitBashPathSource cfg\<rparr>, cfg))"

section \<open>Reference notions for the properties\<close>

text \<open>The children a run has spawned.\<close>

fun spawned :: "effect list \<Rightarrow> (string \<times> string list) list" where
  "spawned [] = []"
| "spawned (Spawn command args # es) = (command, args) # spawned es"
| "spawned (Log l # es) = spawned es"

text \<open>Keeping the first occurrence: an element stays, and every later element with the
  same key goes.\<close>

function keepFirst :: "('a \<Rightarrow> 'b) \<Rightarrow> 'a list \<Rightarrow> 'a list" where
  "keepFirst key [] = []"
| "keepFirst key (x # xs) = x # keepFirst key (filter (\<lambda>y. key y \<noteq> key x) xs)"
  by pat_completeness auto
termination
  by (relation "measure (\<lambda>(key, xs). length xs)") (auto simp: less_Suc_eq_le)

text \<open>
  A string seen as literal text and \<open>%VAR%\<close> tokens.  Literal text holds no percent
  sign; the name of a token is not empty and holds none.  A token stands for the value of
  the first key that matches its name without regard to case, and for itself when no key
  matches.
\<close>

datatype piece = Literal string | Token string

fun wellFormed :: "piece \<Rightarrow> bool" where
  "wellFormed (Literal s) = (CHR ''%'' \<notin> set s)"
| "wellFormed (Token name) = (name \<noteq> [] \<and> CHR ''%'' \<notin> set name)"

fun render :: "piece \<Rightarrow> string" where
  "render (Literal s) = s"
| "render (Token name) = CHR ''%'' # name @ ''%''"

definition matchingKeys :: "env \<Rightarrow> string \<Rightarrow> string list" where
  "matchingKeys env name = filter (\<lambda>k. toLowerCase k = toLowerCase name) (envKeys env)"

fun expanded :: "env \<Rightarrow> piece \<Rightarrow> string" where
  "expanded env (Literal s) = s"
| "expanded env (Token name) =
     (case matchingKeys env name of
        [] \<Rightarrow> render (Token name)
      | key # _ \<Rightarrow> the (envGet env key))"

text \<open>
  The directory that holds a file, and what it is for a directory to be another one or
  to lie under it: to be equal to it, or to begin with it and a separator behind it
  (the separator it ends with, if it ends with one, as a root does).  A \<open>dirname\<close> is
  blind to case when lower-casing a path before or after taking its directory comes to
  the same, as it does for a function that cuts a path at a separator.
\<close>

definition containingDirectory :: "host \<Rightarrow> string \<Rightarrow> string" where
  "containingDirectory h p = path_dirname h (path_resolve h p)"



text \<open>
  The normal form in which two PATH segments count as the same: the result of
  \<open>path.normalize\<close>, in lower case on Windows only.  The PATH that comes of a PATH value
  and the tool-bin directory: the segments of the value, trimmed, and the directory
  behind them, without the empty ones and with the first kept of any that share a normal
  form, joined by the separator of the platform.
\<close>

definition normalForm :: "host \<Rightarrow> string \<Rightarrow> string" where
  "normalForm h segment =
     (if isWin h then toLowerCase (path_normalize h segment) else path_normalize h segment)"

definition cleanedPath :: "host \<Rightarrow> string \<Rightarrow> string \<Rightarrow> string" where
  "cleanedPath h pathValue toolBin =
     (let sep = (if isWin h then CHR '';'' else CHR '':'')
      in joinWith sep
           (keepFirst (normalForm h)
              (filter (\<lambda>s. s \<noteq> []) (map trim (splitOn sep pathValue) @ [toolBin]))))"



subsection \<open>Two hosts for the examples\<close>

text \<open>
  A Linux host: Node's \<open>path\<close> is \<open>path.posix\<close>.  \<open>resolve\<close> and \<open>dirname\<close> are given for
  absolute paths without a trailing slash, where resolving is normalising and the
  directory is what stands before the last slash.  The login shell prints two variables
  and exits with 0; \<open>command -v\<close> finds \<open>npx\<close>.
\<close>

definition posixDirname :: "string \<Rightarrow> string" where
  "posixDirname p =
     (let d = joinWith (CHR ''/'') (butlast (splitOn (CHR ''/'') p)) in if d = [] then ''/'' else d)"

definition linuxHost :: host where
  "linuxHost =
     \<lparr>isWin = False, isMac = False,
      process_env = [(''HOME'', ''/home/u''), (''PATH'', ''/usr/bin'')],
      process_cwd = ''/home/u/project'',
      os_homedir = ''/home/u'',
      path_join = posixJoin,
      path_normalize = posixNormalize,
      path_resolve = posixNormalize,
      path_dirname = posixDirname,
      path_isAbsolute = (\<lambda>p. p \<noteq> [] \<and> hd p = CHR ''/''),
      fs_existsSync = (\<lambda>p. False),
      reg_query = (\<lambda>keyPath valueName. None),
      where_exe = (\<lambda>name env. None),
      login_shell = (\<lambda>shellPath homeDirectory.
        ShellClose (Some 0) (''PATH=/usr/bin'' @ [CHR 0x0A] @ ''FOO=bar'' @ [CHR 0x0A]) []),
      lookup_child = (\<lambda>command args env.
        ChildClose (Some 0) [''/usr/bin/npx'' @ [CHR 0x0A]])\<rparr>"

text \<open>
  A Windows host: Node's \<open>path\<close> is \<open>path.win32\<close>, given here for the paths that start
  with a drive letter, a colon and a separator (either slash), as Node computes them
  there.  The part behind the root is split at both slashes and normalised with nothing
  allowed above the root; \<open>normalize\<close> puts it behind the drive and a backslash and keeps
  a trailing separator, \<open>resolve\<close> drops that, \<open>join\<close> joins the non-empty parts with
  backslashes and normalises.  \<open>dirname\<close> skips the separators at the end and the last
  segment and returns what stands before the separator it then meets, or the root when
  it meets none.  Paths of another form (relative, UNC, relative to a drive) are outside
  this model: the functions hand them back unchanged, and no example below has one.
  The registry holds a machine PATH and no user PATH; Git for Windows is installed in
  its standard place.
\<close>

definition isWinSeparator :: "char \<Rightarrow> bool" where
  "isWinSeparator c = (c = bs \<or> c = CHR ''/'')"

definition isDriveLetter :: "char \<Rightarrow> bool" where
  "isDriveLetter c =
     (let n = (of_char c :: nat) in (65 \<le> n \<and> n \<le> 90) \<or> (97 \<le> n \<and> n \<le> 122))"

definition isDrivePath :: "string \<Rightarrow> bool" where
  "isDrivePath p =
     (case p of
        d # c # s # _ \<Rightarrow> isDriveLetter d \<and> c = CHR '':'' \<and> isWinSeparator s
      | _ \<Rightarrow> False)"

definition winTail :: "string \<Rightarrow> string" where
  "winTail p =
     joinWith bs
       (foldl (normalizeStep False) []
          (splitOn bs (map (\<lambda>c. if c = CHR ''/'' then bs else c) (drop 3 p))))"

definition winNormalize :: "string \<Rightarrow> string" where
  "winNormalize p =
     (if isDrivePath p
      then take 2 p @ [bs] @ winTail p
             @ (if winTail p \<noteq> [] \<and> isWinSeparator (last p) then [bs] else [])
      else p)"

definition winResolve :: "string \<Rightarrow> string" where
  "winResolve p = (if isDrivePath p then take 2 p @ [bs] @ winTail p else p)"

definition winJoin :: "string list \<Rightarrow> string" where
  "winJoin args = winNormalize (joinWith bs (filter (\<lambda>a. a \<noteq> []) args))"

definition winDirname :: "string \<Rightarrow> string" where
  "winDirname p =
     (if isDrivePath p
      then
        let beforeLast = dropWhile (\<lambda>c. \<not> isWinSeparator c)
                           (dropWhile isWinSeparator (rev (drop 3 p)))
        in take 3 p @ rev (tl beforeLast)
      else ''.'')"

definition gitCmd :: string where
  "gitCmd = joinWith bs [''C:'', ''Program Files'', ''Git'', ''cmd'', ''git.exe'']"

definition gitBash :: string where
  "gitBash = joinWith bs [''C:'', ''Program Files'', ''Git'', ''bin'', ''bash.exe'']"

definition winHost :: host where
  "winHost =
     \<lparr>isWin = True, isMac = False,
      process_env = [(''SystemRoot'', ''C:'' @ bs # ''Windows''),
                     (''USERPROFILE'', joinWith bs [''C:'', ''Users'', ''TestUser'']),
                     (''Path'', ''C:'' @ bs # ''StaleOldPath'')],
      process_cwd = joinWith bs [''C:'', ''Users'', ''TestUser'', ''project''],
      os_homedir = joinWith bs [''C:'', ''Users'', ''TestUser''],
      path_join = winJoin,
      path_normalize = winNormalize,
      path_resolve = winResolve,
      path_dirname = winDirname,
      path_isAbsolute = isDrivePath,
      fs_existsSync = (\<lambda>p. p = gitCmd \<or> p = gitBash),
      reg_query = (\<lambda>keyPath valueName.
        if keyPath = HKLM_Environment
        then Some ([CHR 0x0D, CHR 0x0A] @ keyPath @ [CHR 0x0D, CHR 0x0A]
                   @ ''    Path    REG_EXPAND_SZ    %SystemRoot%'' @ bs # ''system32''
                   @ [CHR 0x0D, CHR 0x0A, CHR 0x0D, CHR 0x0A])
        else None),
      where_exe = (\<lambda>name env. None),
      login_shell = (\<lambda>shellPath homeDirectory. ShellError),
      lookup_child = (\<lambda>command args env. ChildClose (Some 1) [])\<rparr>"

text \<open>The keys \<open>appendCherryBinToPath\<close> assigns to.\<close>

definition touched :: "host \<Rightarrow> env \<Rightarrow> string set" where
  "touched h env =
     (if pathKeysOf env \<noteq> [] then set (pathKeysOf env) else {canonicalPathKey h env})
     \<union> (if isWin h then {} else {''PATH''})"




text \<open>
  A Windows host on which \<open>where.exe node\<close> reports a file planted in the working
  directory before the installed one, and \<open>where.exe tool\<close> reports a planted file only;
  a Windows host whose working directory is the \<open>cmd\<close> directory of Git; a Windows host
  whose working directory is the root of the drive.
\<close>

definition CRLF :: string where
  "CRLF = [CHR 0x0D, CHR 0x0A]"





definition driveRootHost :: host where
  "driveRootHost =
     winHost\<lparr>process_cwd := ''C:'' @ [bs],
             where_exe := (\<lambda>name env. Some (joinWith bs [''C:'', ''sub'', ''tool.exe''] @ CRLF))\<rparr>"


text \<open>
  Windows hosts for Git Bash: one that has a file \<open>notbash.exe\<close>; one where the override
  variable names a second \<open>bash.exe\<close>.  Two configurations: a path entered by hand that
  is valid, and one whose file is gone and was never a \<open>bash.exe\<close>.
\<close>

definition notBash :: string where
  "notBash = joinWith bs [''C:'', ''tools'', ''notbash.exe'']"

definition notBashHost :: host where
  "notBashHost = winHost\<lparr>fs_existsSync := (\<lambda>p. p = notBash)\<rparr>"

definition overrideBash :: string where
  "overrideBash = joinWith bs [''C:'', ''override'', ''bash.exe'']"

definition overrideHost :: host where
  "overrideHost =
     winHost\<lparr>process_env := process_env winHost @ [(''CLAUDE_CODE_GIT_BASH_PATH'', overrideBash)],
             fs_existsSync := (\<lambda>p. p = gitCmd \<or> p = gitBash \<or> p = overrideBash)\<rparr>"

definition manualConfig :: config where
  "manualConfig = \<lparr>GitBashPath = Some gitBash, GitBashPathSource = Some SourceManual\<rparr>"

definition staleConfig :: config where
  "staleConfig =
     \<lparr>GitBashPath = Some (joinWith bs [''C:'', ''gone'', ''shell.txt'']),
      GitBashPathSource = Some SourceManual\<rparr>"

definition emptyConfig :: config where
  "emptyConfig = \<lparr>GitBashPath = None, GitBashPathSource = None\<rparr>"



definition twoKeyEnv :: env where
  "twoKeyEnv = [(''HOME'', ''/home/u''), (''path'', ''/x''), (''PATH'', ''/a:/b:/a'')]"

definition mixedCaseEnv :: env where
  "mixedCaseEnv =
     [(''USERPROFILE'', joinWith bs [''C:'', ''Users'', ''TestUser'']),
      (''Path'', joinWith bs [''C:'', ''Tools''] @ '';'' @ joinWith bs [''c:'', ''TOOLS''] @ '';''
                 @ joinWith bs [''C:'', ''Other''] @ '';''
                 @ joinWith bs [''C:'', ''Tools'', ''..'', ''other''])]"

text \<open>Inputs of the examples: a Windows PATH that holds the tool-bin directory in
  another case, and a registry value seen as pieces, with an environment that has two
  PATH keys.\<close>

definition upperBinEnv :: env where
  "upperBinEnv =
     [(''USERPROFILE'', joinWith bs [''C:'', ''Users'', ''TestUser'']),
      (''Path'', joinWith bs [''C:'', ''USERS'', ''testuser'', ''.CherryStudio'', ''BIN''])]"

definition mixedPieces :: "piece list" where
  "mixedPieces =
     [Token ''systemroot'', Literal (bs # ''system32;''), Token ''UNKNOWN_VAR'',
      Literal (bs # ''bin;''), Token ''path'']"

definition mixedEnv :: env where
  "mixedEnv =
     [(''SystemRoot'', ''C:'' @ bs # ''Windows''), (''Path'', ''C:'' @ bs # ''One''),
      (''PATH'', ''C:'' @ bs # ''Two'')]"

section \<open>Facts about strings, environment maps and the PATH appender\<close>

lemma trim_idem: "trim (trim s) = trim s"
proof -
  define u where "u = dropWhile isWhiteSpace s"
  define v where "v = dropWhile isWhiteSpace (rev u)"
  have t: "trim s = rev v" by (simp add: trim_def u_def v_def)
  have vv: "dropWhile isWhiteSpace v = v" by (simp add: v_def)
  have "rev u = takeWhile isWhiteSpace (rev u) @ v" by (simp add: v_def)
  then have "u = rev v @ rev (takeWhile isWhiteSpace (rev u))"
    by (metis rev_append rev_rev_ident)
  then obtain w where uw: "u = rev v @ w" by blast
  have "dropWhile isWhiteSpace (rev v) = rev v"
  proof (cases "rev v")
    case Nil then show ?thesis by simp
  next
    case (Cons x t)
    then have "u = x # t @ w" using uw by simp
    then have "\<not> isWhiteSpace x" unfolding u_def
      by (metis hd_dropWhile list.sel(1) list.distinct(1))
    then show ?thesis using Cons by simp
  qed
  then have "trim (rev v) = rev v" using vv by (simp add: trim_def)
  then show ?thesis by (simp add: t)
qed

lemma set_trim: "set (trim s) \<subseteq> set s"
  by (auto simp: trim_def dest!: set_dropWhileD)


lemma splitOn_free: "x \<in> set (splitOn c s) \<Longrightarrow> c \<notin> set x"
  by (induction s arbitrary: x) (auto split: list.splits if_splits)

lemma splitOn_single: "c \<notin> set x \<Longrightarrow> splitOn c x = [x]"
  by (induction x) auto

lemma splitOn_append: "c \<notin> set x \<Longrightarrow> splitOn c (x @ c # r) = x # splitOn c r"
  by (induction x) auto

lemma splitOn_joinWith:
  "xs \<noteq> [] \<Longrightarrow> (\<And>x. x \<in> set xs \<Longrightarrow> c \<notin> set x) \<Longrightarrow> splitOn c (joinWith c xs) = xs"
  by (induction c xs rule: joinWith.induct) (auto simp: splitOn_single splitOn_append)

lemma pushIfUnique_step:
  "pushIfUnique h (u, S) x =
     (if x = [] \<or> normaliseSegment h x \<in> S then (u, S)
      else (u @ [x], insert (normaliseSegment h x) S))"
  by (simp add: pushIfUnique_def Let_def)

lemma foldl_pushIfUnique:
  "foldl (pushIfUnique h) (u, S) xs =
     (u @ keepFirst (normaliseSegment h) (filter (\<lambda>x. x \<noteq> [] \<and> normaliseSegment h x \<notin> S) xs),
      S \<union> normaliseSegment h ` set (filter (\<lambda>x. x \<noteq> []) xs))"
proof (induction xs arbitrary: u S)
  case Nil then show ?case by simp
next
  case (Cons x xs)
  show ?case
  proof (cases "x = [] \<or> normaliseSegment h x \<in> S")
    case True
    then show ?thesis by (auto simp: pushIfUnique_step Cons.IH)
  next
    case False
    have "filter (\<lambda>y. normaliseSegment h y \<noteq> normaliseSegment h x)
            (filter (\<lambda>x. x \<noteq> [] \<and> normaliseSegment h x \<notin> S) xs)
          = filter (\<lambda>y. y \<noteq> [] \<and> normaliseSegment h y \<notin> insert (normaliseSegment h x) S) xs"
      by (auto intro: filter_cong)
    with False show ?thesis by (simp add: pushIfUnique_step Cons.IH)
  qed
qed

lemma envGet_envSet: "envGet (envSet e k v) k' = (if k' = k then Some v else envGet e k')"
  by (simp add: envGet_def envSet_def update_conv')

lemma envGet_foldl_envSet:
  "envGet (foldl (\<lambda>e k. envSet e k v) e ks) k' = (if k' \<in> set ks then Some v else envGet e k')"
  by (induction ks arbitrary: e) (auto simp: envGet_envSet)

lemma envSet_triv: "envGet e k = Some v \<Longrightarrow> envSet e k v = e"
  by (simp add: envGet_def envSet_def update_triv)

lemma foldl_envSet_triv:
  "(\<And>k. k \<in> set ks \<Longrightarrow> envGet e k = Some v) \<Longrightarrow> foldl (\<lambda>e k. envSet e k v) e ks = e"
  by (induction ks) (auto simp: envSet_triv)

lemma envKeys_envSet:
  "envKeys (envSet e k v) = (if k \<in> set (envKeys e) then envKeys e else envKeys e @ [k])"
  by (simp add: envKeys_def envSet_def update_keys)

lemma envGet_None_iff: "envGet e k = None \<longleftrightarrow> k \<notin> set (envKeys e)"
  by (simp add: envGet_def envKeys_def map_of_eq_None_iff)

lemma pathKeysOf_envSet:
  "pathKeysOf (envSet e k v) =
     (if k \<in> set (envKeys e) \<or> toLowerCase k \<noteq> ''path'' then pathKeysOf e else pathKeysOf e @ [k])"
  by (simp add: pathKeysOf_def envKeys_envSet)

lemma set_pathKeysOf: "set (pathKeysOf e) = {k \<in> set (envKeys e). toLowerCase k = ''path''}"
  by (auto simp: pathKeysOf_def)

lemma lower_PATH: "toLowerCase ''PATH'' = ''path''" "toLowerCase ''Path'' = ''path''"
  by (simp_all add: toLowerCase_def lowerChar_def char_of_def bit_0)

lemma canonical_lower: "toLowerCase (canonicalPathKey h e) = ''path''"
proof (cases "pathKeysOf e")
  case Nil then show ?thesis by (simp add: canonicalPathKey_def lower_PATH)
next
  case (Cons k ks)
  then have "k \<in> set (pathKeysOf e)" by simp
  then have "toLowerCase k = ''path''" by (simp add: set_pathKeysOf)
  then show ?thesis using Cons by (simp add: canonicalPathKey_def)
qed

lemma canonical_envSet:
  "pathKeysOf e \<noteq> [] \<Longrightarrow> canonicalPathKey h (envSet e k v) = canonicalPathKey h e"
  by (cases "pathKeysOf e") (auto simp: canonicalPathKey_def pathKeysOf_envSet)

lemma pathKeysOf_envSet_nonempty: "pathKeysOf e \<noteq> [] \<Longrightarrow> pathKeysOf (envSet e k v) \<noteq> []"
  by (simp add: pathKeysOf_envSet)

lemma canonical_foldl:
  "pathKeysOf e \<noteq> [] \<Longrightarrow>
     canonicalPathKey h (foldl (\<lambda>e k. envSet e k v) e ks) = canonicalPathKey h e
     \<and> pathKeysOf (foldl (\<lambda>e k. envSet e k v) e ks) \<noteq> []"
  by (induction ks arbitrary: e) (auto simp: canonical_envSet pathKeysOf_envSet_nonempty)

lemma canonical_envSet_fresh:
  "pathKeysOf e = [] \<Longrightarrow> toLowerCase k = ''path'' \<Longrightarrow>
     canonicalPathKey h (envSet e k v) = k \<and> pathKeysOf (envSet e k v) \<noteq> []"
proof -
  assume a: "pathKeysOf e = []" and b: "toLowerCase k = ''path''"
  have "k \<notin> set (envKeys e)" using a b set_pathKeysOf[of e] by auto
  then show ?thesis using a b by (simp add: canonicalPathKey_def pathKeysOf_envSet)
qed

lemma envGet_append:
  "envGet (appendCherryBinToPath h env) k =
     (if k \<in> touched h env then Some (updatedPath h env) else envGet env k)"
  by (auto simp: appendCherryBinToPath_def Let_def touched_def envGet_envSet envGet_foldl_envSet)

lemma touched_lower: "k \<in> touched h env \<Longrightarrow> toLowerCase k = ''path''"
  by (auto simp: touched_def set_pathKeysOf canonical_lower lower_PATH split: if_splits)

lemma canonical_touched: "canonicalPathKey h env \<in> touched h env"
  by (cases "pathKeysOf env") (auto simp: touched_def canonicalPathKey_def)

lemma canonical_append:
  "canonicalPathKey h (appendCherryBinToPath h env) = canonicalPathKey h env
   \<and> pathKeysOf (appendCherryBinToPath h env) \<noteq> []"
proof (cases "pathKeysOf env = []")
  case True
  have l: "toLowerCase (canonicalPathKey h env) = ''path''" by (rule canonical_lower)
  note f = canonical_envSet_fresh[OF True l, of h "updatedPath h env"]
  show ?thesis
    using True f by (simp add: appendCherryBinToPath_def Let_def canonical_envSet pathKeysOf_envSet_nonempty)
next
  case False
  note f = canonical_foldl[OF False, of h "updatedPath h env" "pathKeysOf env"]
  show ?thesis
    using False f by (simp add: appendCherryBinToPath_def Let_def canonical_envSet pathKeysOf_envSet_nonempty)
qed

lemma envKeys_append_subset:
  "set (envKeys (appendCherryBinToPath h env)) \<subseteq> set (envKeys env) \<union> touched h env"
proof -
  have a: "\<And>e ks v. set (envKeys (foldl (\<lambda>e k. envSet e k v) e ks)) \<subseteq> set (envKeys e) \<union> set ks"
  proof -
    fix e :: env and ks v
    show "set (envKeys (foldl (\<lambda>e k. envSet e k v) e ks)) \<subseteq> set (envKeys e) \<union> set ks"
      by (induction ks arbitrary: e) (force simp: envKeys_envSet split: if_splits)+
  qed
  show ?thesis
    using a[of "updatedPath h env" env "pathKeysOf env"]
    by (auto simp: appendCherryBinToPath_def Let_def touched_def envKeys_envSet split: if_splits)
qed

lemma pathKeys_append_touched:
  "k \<in> set (pathKeysOf (appendCherryBinToPath h env)) \<Longrightarrow> k \<in> touched h env"
proof -
  assume "k \<in> set (pathKeysOf (appendCherryBinToPath h env))"
  then have k: "k \<in> set (envKeys (appendCherryBinToPath h env))" "toLowerCase k = ''path''"
    by (auto simp: set_pathKeysOf)
  then have "k \<in> set (envKeys env) \<or> k \<in> touched h env" using envKeys_append_subset by blast
  moreover have "k \<in> set (envKeys env) \<Longrightarrow> k \<in> touched h env"
  proof -
    assume "k \<in> set (envKeys env)"
    then have "k \<in> set (pathKeysOf env)" using k(2) by (simp add: set_pathKeysOf)
    then show ?thesis by (auto simp: touched_def)
  qed
  ultimately show ?thesis by blast
qed

lemma set_keepFirst: "set (keepFirst key xs) \<subseteq> set xs"
proof (induction key xs rule: keepFirst.induct)
  case (1 key) then show ?case by simp
next
  case (2 key x xs) then show ?case by auto
qed

lemma keys_keepFirst: "key ` set (keepFirst key xs) = key ` set xs"
proof (induction key xs rule: keepFirst.induct)
  case (1 key) then show ?case by simp
next
  case (2 key x xs) then show ?case by auto
qed

lemma distinct_keepFirst: "distinct (map key (keepFirst key xs))"
proof (induction key xs rule: keepFirst.induct)
  case (1 key) then show ?case by simp
next
  case (2 key x xs)
  have "key x \<notin> key ` set (filter (\<lambda>y. key y \<noteq> key x) xs)" by force
  then have "key x \<notin> key ` set (keepFirst key (filter (\<lambda>y. key y \<noteq> key x) xs))"
    by (simp add: keys_keepFirst)
  with 2 show ?case by simp
qed

lemma keepFirst_append_seen:
  "distinct (map key ys) \<Longrightarrow> key ` set B \<subseteq> key ` set ys \<Longrightarrow> keepFirst key (ys @ B) = ys"
proof (induction ys arbitrary: B)
  case Nil then show ?case by simp
next
  case (Cons y ys)
  have "key y \<notin> key ` set ys" using Cons.prems(1) by simp
  then have "\<And>z. z \<in> set ys \<Longrightarrow> key z \<noteq> key y" by (metis image_eqI)
  then have f: "filter (\<lambda>z. key z \<noteq> key y) ys = ys" by (intro filter_True) auto
  have "key ` set (filter (\<lambda>z. key z \<noteq> key y) B) \<subseteq> key ` set ys" using Cons.prems(2) by auto
  then have "keepFirst key (ys @ filter (\<lambda>z. key z \<noteq> key y) B) = ys"
    using Cons.IH Cons.prems(1) by simp
  then show ?case by (simp add: f)
qed

lemma uniqueSegments_keepFirst:
  "uniqueSegments h env =
     keepFirst (normaliseSegment h)
       (filter (\<lambda>x. x \<noteq> []) (existingSegments h env @ [cherryBinPath h env]))"
proof -
  have "pushIfUnique h (foldl (pushIfUnique h) ([], {}) (existingSegments h env)) (cherryBinPath h env)
        = foldl (pushIfUnique h) ([], {}) (existingSegments h env @ [cherryBinPath h env])"
    by simp
  then show ?thesis
    unfolding uniqueSegments_def by (simp only: foldl_pushIfUnique) simp
qed

lemma lower_home:
  "toLowerCase ''HOME'' \<noteq> ''path''" "toLowerCase ''Home'' \<noteq> ''path''"
  "toLowerCase ''USERPROFILE'' \<noteq> ''path''" "toLowerCase ''UserProfile'' \<noteq> ''path''"
  by (simp_all add: toLowerCase_def lowerChar_def char_of_def bit_0)

lemma homeDir_append: "homeDirFromEnv h (appendCherryBinToPath h env) = homeDirFromEnv h env"
proof -
  have "\<And>k. toLowerCase k \<noteq> ''path'' \<Longrightarrow> envGet (appendCherryBinToPath h env) k = envGet env k"
    using touched_lower by (auto simp: envGet_append)
  then show ?thesis by (simp add: homeDirFromEnv_def lower_home)
qed

lemma existing_append:
  "existingPathValue h (appendCherryBinToPath h env) = updatedPath h env"
proof -
  let ?e = "appendCherryBinToPath h env" and ?up = "updatedPath h env"
  have c: "envGet ?e (canonicalPathKey h ?e) = Some ?up"
    using canonical_append[of h env] canonical_touched[of h env] by (simp add: envGet_append)
  show ?thesis
  proof (cases "?up = []")
    case False
    then show ?thesis using c by (simp add: existingPathValue_def orElse_def orDefault_def)
  next
    case True
    have "envGet ?e ''PATH'' = None \<or> envGet ?e ''PATH'' = Some ?up"
    proof (cases "''PATH'' \<in> touched h env")
      case True then show ?thesis by (simp add: envGet_append)
    next
      case False
      have "''PATH'' \<notin> set (envKeys env)"
      proof
        assume "''PATH'' \<in> set (envKeys env)"
        then have "''PATH'' \<in> set (pathKeysOf env)" by (simp add: set_pathKeysOf lower_PATH)
        then show False using False by (cases "pathKeysOf env = []") (auto simp: touched_def)
      qed
      then show ?thesis using False by (simp add: envGet_append envGet_None_iff)
    qed
    then show ?thesis using c True
      by (auto simp: existingPathValue_def orElse_def orDefault_def)
  qed
qed

lemma segments_roundtrip:
  assumes "pathSeparator h \<notin> set (cherryBinPath h env)"
      and "trim (cherryBinPath h env) = cherryBinPath h env"
  shows "filter (\<lambda>x. x \<noteq> [])
           (map trim (splitOn (pathSeparator h) (joinWith (pathSeparator h) (uniqueSegments h env))))
         = uniqueSegments h env"
proof -
  let ?c = "pathSeparator h" and ?U = "uniqueSegments h env"
  have sub: "set ?U \<subseteq> {x. x \<noteq> []} \<inter> (set (existingSegments h env) \<union> {cherryBinPath h env})"
    using set_keepFirst[of "normaliseSegment h"
        "filter (\<lambda>x. x \<noteq> []) (existingSegments h env @ [cherryBinPath h env])"]
    by (auto simp: uniqueSegments_keepFirst)
  have el: "x \<noteq> [] \<and> ?c \<notin> set x \<and> trim x = x" if "x \<in> set ?U" for x
  proof -
    from that sub have ne: "x \<noteq> []" and
      m: "x \<in> set (existingSegments h env) \<or> x = cherryBinPath h env" by auto
    from m show ?thesis
    proof
      assume "x \<in> set (existingSegments h env)"
      then obtain y where y: "y \<in> set (splitOn ?c (existingPathValue h env))" "x = trim y"
        by (auto simp: existingSegments_def)
      have "?c \<notin> set y" using y(1) by (rule splitOn_free)
      then have "?c \<notin> set x" using set_trim[of y] y(2) by auto
      then show ?thesis using ne y(2) by (simp add: trim_idem)
    next
      assume "x = cherryBinPath h env"
      then show ?thesis using ne assms by simp
    qed
  qed
  show ?thesis
  proof (cases "?U = []")
    case True
    then show ?thesis by (simp add: trim_def)
  next
    case False
    have "splitOn ?c (joinWith ?c ?U) = ?U"
      using False el by (intro splitOn_joinWith) auto
    moreover have "map trim ?U = ?U" using el by (simp add: map_idI)
    moreover have "filter (\<lambda>x. x \<noteq> []) ?U = ?U" using el by (auto intro!: filter_True)
    ultimately show ?thesis by simp
  qed
qed

lemma uniqueSegments_append:
  assumes "pathSeparator h \<notin> set (cherryBinPath h env)"
      and "trim (cherryBinPath h env) = cherryBinPath h env"
  shows "uniqueSegments h (appendCherryBinToPath h env) = uniqueSegments h env"
proof -
  let ?e = "appendCherryBinToPath h env" and ?key = "normaliseSegment h"
  let ?B = "filter (\<lambda>x. x \<noteq> []) [cherryBinPath h env]"
  let ?Y = "filter (\<lambda>x. x \<noteq> []) (existingSegments h env) @ ?B"
  have U: "uniqueSegments h env = keepFirst ?key ?Y" by (simp add: uniqueSegments_keepFirst)
  have bin: "cherryBinPath h ?e = cherryBinPath h env" by (simp add: cherryBinPath_def homeDir_append)
  have "filter (\<lambda>x. x \<noteq> []) (existingSegments h ?e) = uniqueSegments h env"
    using segments_roundtrip[OF assms]
    by (simp add: existingSegments_def existing_append updatedPath_def)
  then have "uniqueSegments h ?e = keepFirst ?key (keepFirst ?key ?Y @ ?B)"
    by (simp add: uniqueSegments_keepFirst[of h ?e] bin U)
  also have "\<dots> = keepFirst ?key ?Y"
  proof (rule keepFirst_append_seen)
    show "distinct (map ?key (keepFirst ?key ?Y))" by (rule distinct_keepFirst)
    show "?key ` set ?B \<subseteq> ?key ` set (keepFirst ?key ?Y)"
      by (simp only: keys_keepFirst) auto
  qed
  finally show ?thesis by (simp add: U)
qed

lemma appendCherryBinToPath_idem:
  assumes "pathSeparator h \<notin> set (cherryBinPath h env)"
      and "trim (cherryBinPath h env) = cherryBinPath h env"
  shows "appendCherryBinToPath h (appendCherryBinToPath h env) = appendCherryBinToPath h env"
proof -
  let ?e = "appendCherryBinToPath h env" and ?up = "updatedPath h env"
  have up: "updatedPath h ?e = ?up"
    by (simp add: updatedPath_def uniqueSegments_append[OF assms])
  have ne: "pathKeysOf ?e \<noteq> []" using canonical_append[of h env] by simp
  have all: "envGet ?e k = Some ?up" if "k \<in> set (pathKeysOf ?e)" for k
    using pathKeys_append_touched[OF that] by (simp add: envGet_append)
  have f: "foldl (\<lambda>e key. envSet e key ?up) ?e (pathKeysOf ?e) = ?e"
    using all by (rule foldl_envSet_triv)
  have p: "\<not> isWin h \<Longrightarrow> envSet ?e ''PATH'' ?up = ?e"
    by (rule envSet_triv) (simp add: envGet_append touched_def)
  have "appendCherryBinToPath h ?e
        = (if \<not> isWin h then envSet (foldl (\<lambda>e key. envSet e key ?up) ?e (pathKeysOf ?e)) ''PATH'' ?up
           else foldl (\<lambda>e key. envSet e key ?up) ?e (pathKeysOf ?e))"
    using ne by (simp add: appendCherryBinToPath_def[of h ?e] Let_def up)
  then show ?thesis using f p by simp
qed

section \<open>The command name gate\<close>

lemma invalid_by_char: "c \<in> set command \<Longrightarrow> \<not> isNameChar c \<Longrightarrow> \<not> VALID_COMMAND_NAME_REGEX command"
  by (cases command) (auto simp: VALID_COMMAND_NAME_REGEX_def isNameChar_def list_all_iff)

text \<open>
  C1: a command name that does not match the safety pattern (one code unit of
  \<open>[a-zA-Z0-9_]\<close>, then at most 127 of \<open>[a-zA-Z0-9_-]\<close>) makes
  \<open>findCommandInShellEnv\<close> return \<open>null\<close> with a warning logged and without spawning a
  child, on every host and for every environment.  A name that holds any code unit
  outside \<open>[a-zA-Z0-9_-]\<close>, such as a shell metacharacter, does not match; the name
  \<open>ls; rm -rf /\<close> is rejected.  A name that matches always reaches a spawn, so the
  pattern is the only gate.
\<close>

theorem C1_invalid_command_name_rejected:
  "(\<not> VALID_COMMAND_NAME_REGEX command \<longrightarrow>
      snd (findCommandInShellEnv h command loginShellEnv) = None
      \<and> spawned (fst (findCommandInShellEnv h command loginShellEnv)) = []
      \<and> fst (findCommandInShellEnv h command loginShellEnv) = [Log Warn])
   \<and> ((\<exists>c \<in> set command. \<not> isNameChar c) \<longrightarrow> \<not> VALID_COMMAND_NAME_REGEX command)
   \<and> (VALID_COMMAND_NAME_REGEX command \<longrightarrow>
        spawned (fst (findCommandInShellEnv h command loginShellEnv)) \<noteq> [])
   \<and> findCommandInShellEnv h ''ls; rm -rf /'' loginShellEnv = ([Log Warn], None)"
proof (intro conjI impI)
  assume "\<not> VALID_COMMAND_NAME_REGEX command"
  then show "snd (findCommandInShellEnv h command loginShellEnv) = None"
    "spawned (fst (findCommandInShellEnv h command loginShellEnv)) = []"
    "fst (findCommandInShellEnv h command loginShellEnv) = [Log Warn]"
    by (simp_all add: findCommandInShellEnv_def)
next
  assume "\<exists>c \<in> set command. \<not> isNameChar c"
  then show "\<not> VALID_COMMAND_NAME_REGEX command" using invalid_by_char by blast
next
  assume "VALID_COMMAND_NAME_REGEX command"
  then show "spawned (fst (findCommandInShellEnv h command loginShellEnv)) \<noteq> []"
    by (auto simp: findCommandInShellEnv_def Let_def split: child_outcome.splits option.splits)
next
  have "\<not> VALID_COMMAND_NAME_REGEX ''ls; rm -rf /''"
    by (simp add: VALID_COMMAND_NAME_REGEX_def isNameChar_def isWordChar_def)
  then show "findCommandInShellEnv h ''ls; rm -rf /'' loginShellEnv = ([Log Warn], None)"
    by (simp add: findCommandInShellEnv_def)
qed

text \<open>The theorem at the names \<open>npx --yes\<close> and \<open>npx\<close> on the Linux host.\<close>

theorem C1_invalid_command_name_rejected_witness:
  "\<not> VALID_COMMAND_NAME_REGEX ''npx --yes''
   \<and> (\<exists>c \<in> set ''npx --yes''. \<not> isNameChar c)
   \<and> snd (findCommandInShellEnv linuxHost ''npx --yes'' (process_env linuxHost)) = None
   \<and> spawned (fst (findCommandInShellEnv linuxHost ''npx --yes'' (process_env linuxHost))) = []
   \<and> VALID_COMMAND_NAME_REGEX ''npx''
   \<and> spawned (fst (findCommandInShellEnv linuxHost ''npx'' (process_env linuxHost))) \<noteq> []"
proof -
  have a: "\<exists>c \<in> set ''npx --yes''. \<not> isNameChar c"
    by (simp add: isNameChar_def isWordChar_def)
  have b: "VALID_COMMAND_NAME_REGEX ''npx''"
    by (simp add: VALID_COMMAND_NAME_REGEX_def isNameChar_def isWordChar_def)
  show ?thesis
    using a b
      C1_invalid_command_name_rejected[of "''npx --yes''" linuxHost "process_env linuxHost"]
      C1_invalid_command_name_rejected[of "''npx''" linuxHost "process_env linuxHost"]
    by blast
qed

section \<open>The PATH appender\<close>

lemma find_filter_imp: "(\<And>y. P y \<Longrightarrow> Q y) \<Longrightarrow> find P (filter Q xs) = find P xs"
  by (induction xs) auto

lemma find_SomeD: "find P xs = Some x \<Longrightarrow> x \<in> set xs \<and> P x"
  by (induction xs) (auto split: if_splits)

lemma find_filter_hd:
  "find P xs = (case filter P xs of [] \<Rightarrow> None | x # _ \<Rightarrow> Some x)"
  by (induction xs) auto

lemma set_keepFirst_first:
  "set (keepFirst key xs) = {u. find (\<lambda>y. key y = key u) xs = Some u}"
proof (induction key xs rule: keepFirst.induct)
  case (1 key)
  then show ?case by simp
next
  case (2 key x xs)
  let ?f = "filter (\<lambda>y. key y \<noteq> key x) xs"
  have a: "find (\<lambda>y. key y = key u) ?f = find (\<lambda>y. key y = key u) xs" if "key u \<noteq> key x" for u
    using that by (intro find_filter_imp) auto
  have b: "find (\<lambda>y. key y = key u) ?f \<noteq> Some u" if "key u = key x" for u
  proof
    assume "find (\<lambda>y. key y = key u) ?f = Some u"
    then have "u \<in> set ?f" by (auto dest: find_SomeD)
    then show False using that by simp
  qed
  show ?case
  proof (rule set_eqI)
    fix u
    show "u \<in> set (keepFirst key (x # xs)) \<longleftrightarrow> u \<in> {u. find (\<lambda>y. key y = key u) (x # xs) = Some u}"
    proof (cases "key u = key x")
      case True
      then show ?thesis using b[OF True] 2 by auto
    next
      case False
      then show ?thesis using a[OF False] 2 by auto
    qed
  qed
qed

lemma keepFirst_snoc:
  "keepFirst key (xs @ [b]) =
     (if key b \<in> key ` set xs then keepFirst key xs else keepFirst key xs @ [b])"
proof (induction key xs rule: keepFirst.induct)
  case (1 key)
  then show ?case by simp
next
  case (2 key x xs)
  show ?case
  proof (cases "key b = key x")
    case True
    then have "filter (\<lambda>y. key y \<noteq> key x) (xs @ [b]) = filter (\<lambda>y. key y \<noteq> key x) xs" by simp
    then show ?thesis using True by simp
  next
    case False
    have "key b \<in> key ` set (filter (\<lambda>y. key y \<noteq> key x) xs) \<longleftrightarrow> key b \<in> key ` set xs"
      using False by (auto simp: image_iff)
    then show ?thesis using False 2 by simp
  qed
qed

lemma normaliseSegment_normalForm: "normaliseSegment h = normalForm h"
  by (rule ext) (simp add: normaliseSegment_def normalForm_def)

lemma pathSeparator_platform: "pathSeparator h = (if isWin h then CHR '';'' else CHR '':'')"
  by (simp add: pathSeparator_def)

lemma updatedPath_cleanedPath:
  "updatedPath h env = cleanedPath h (existingPathValue h env) (cherryBinPath h env)"
  by (simp add: updatedPath_def uniqueSegments_keepFirst existingSegments_def cleanedPath_def
      normaliseSegment_normalForm pathSeparator_platform Let_def)

lemma path_keys_written:
  assumes "(k \<in> set (envKeys env) \<and> toLowerCase k = ''path'')
           \<or> (\<not> isWin h \<and> k = ''PATH'')
           \<or> (isWin h \<and> k = ''Path'' \<and> \<not> (\<exists>k' \<in> set (envKeys env). toLowerCase k' = ''path''))"
  shows "envGet (appendCherryBinToPath h env) k
         = Some (cleanedPath h (existingPathValue h env) (cherryBinPath h env))"
proof -
  have "k \<in> touched h env"
    using assms
  proof (elim disjE conjE)
    assume "k \<in> set (envKeys env)" "toLowerCase k = ''path''"
    then have "k \<in> set (pathKeysOf env)" by (simp add: set_pathKeysOf)
    then show ?thesis by (auto simp: touched_def)
  next
    assume "\<not> isWin h" "k = ''PATH''"
    then show ?thesis by (simp add: touched_def)
  next
    assume a: "isWin h" "k = ''Path''" "\<not> (\<exists>k' \<in> set (envKeys env). toLowerCase k' = ''path'')"
    then have "pathKeysOf env = []" by (auto simp: pathKeysOf_def filter_empty_conv)
    then show ?thesis using a by (simp add: touched_def canonicalPathKey_def)
  qed
  then show ?thesis by (simp add: envGet_append updatedPath_cleanedPath)
qed


lemma existing_no_key:
  assumes "\<not> (\<exists>k \<in> set (envKeys env). toLowerCase k = ''path'')"
  shows "existingPathValue h env = []"
proof -
  have p: "pathKeysOf env = []" using assms by (auto simp: pathKeysOf_def filter_empty_conv)
  have l: "toLowerCase (canonicalPathKey h env) = ''path''" by (rule canonical_lower)
  have "canonicalPathKey h env \<notin> set (envKeys env)" using assms l by blast
  moreover have "''PATH'' \<notin> set (envKeys env)" using assms lower_PATH(1) by blast
  ultimately show ?thesis
    by (simp add: existingPathValue_def orElse_def orDefault_def envGet_None_iff[symmetric])
qed

lemma existing_first_key:
  assumes "find (\<lambda>k. toLowerCase k = ''path'') (envKeys env) = Some k"
  shows "existingPathValue h env
         = (if truthy (envGet env k) then the (envGet env k) else orDefault (envGet env ''PATH'') [])"
proof -
  have "canonicalPathKey h env = k"
    using assms by (auto simp: canonicalPathKey_def pathKeysOf_def find_filter_hd split: list.splits)
  then show ?thesis
    by (cases "envGet env k") (auto simp: existingPathValue_def orElse_def orDefault_def)
qed





text \<open>
  The claim C10 as it is written fails for an environment with two keys that spell
  PATH.  On the Linux host, with a key \<open>path\<close> before the key \<open>PATH\<close>, the value of
  \<open>PATH\<close> holds \<open>/a\<close> twice, and the value written to \<open>PATH\<close> holds \<open>/a\<close> not even
  once: it is built from the value of \<open>path\<close>.
\<close>

theorem C10_second_path_key_counterexample:
  "envGet twoKeyEnv ''PATH'' = Some ''/a:/b:/a''
   \<and> envGet (appendCherryBinToPath linuxHost twoKeyEnv) ''PATH''
       = Some ''/x:/home/u/.cherrystudio/bin''
   \<and> ''/a'' \<notin> set (splitOn (CHR '':'') ''/x:/home/u/.cherrystudio/bin'')"
  by code_simp

text \<open>
  C10 (amended): \<open>appendCherryBinToPath\<close> removes the duplicates among the segments of
  the PATH value it reads, not only a second copy of the tool-bin directory.  The value
  read is that of the first key that spells \<open>path\<close> in any case, or of \<open>PATH\<close> when
  that value is empty, and the empty string when no key spells \<open>path\<close>.  Its segments
  are trimmed, the empty ones are dropped, the tool-bin directory is put last, and of
  the segments that have the same normal form, which is \<open>path.normalize\<close> of the
  segment, lower-cased on Windows, only the first is kept.  The result, joined by the
  separator, is written to every key that spells \<open>path\<close>, to \<open>PATH\<close> off Windows, and
  to \<open>Path\<close> on Windows when no key spells \<open>path\<close>.  So the PATH written is not in
  general the PATH read with one segment appended: \<open>/usr/bin:/bin:/usr/bin\<close> becomes
  \<open>/usr/bin:/bin:/home/u/.cherrystudio/bin\<close> on the Linux host, and on the Windows host
  \<open>C:\Tools;c:\TOOLS;C:\Other;C:\Tools\..\other\<close> becomes \<open>C:\Tools;C:\Other\<close> followed
  by the tool-bin directory.
\<close>

theorem C10_read_path_deduplicated:
  "((k \<in> set (envKeys env) \<and> toLowerCase k = ''path'')
      \<or> (\<not> isWin h \<and> k = ''PATH'')
      \<or> (isWin h \<and> k = ''Path'' \<and> \<not> (\<exists>k' \<in> set (envKeys env). toLowerCase k' = ''path''))
     \<longrightarrow> envGet (appendCherryBinToPath h env) k
          = Some (cleanedPath h (existingPathValue h env) (cherryBinPath h env)))
   \<and> (find (\<lambda>k. toLowerCase k = ''path'') (envKeys env) = Some k
       \<longrightarrow> existingPathValue h env
            = (if truthy (envGet env k) then the (envGet env k)
               else orDefault (envGet env ''PATH'') []))
   \<and> (\<not> (\<exists>k \<in> set (envKeys env). toLowerCase k = ''path'') \<longrightarrow> existingPathValue h env = [])
   \<and> cleanedPath h pathValue toolBin
       = joinWith (if isWin h then CHR '';'' else CHR '':'')
           (keepFirst (normalForm h)
              (filter (\<lambda>s. s \<noteq> [])
                 (map trim (splitOn (if isWin h then CHR '';'' else CHR '':'') pathValue) @ [toolBin])))
   \<and> normalForm h segment
       = (if isWin h then toLowerCase (path_normalize h segment) else path_normalize h segment)
   \<and> distinct (map (normalForm h) (keepFirst (normalForm h) segments))
   \<and> set (keepFirst (normalForm h) segments)
       = {u. find (\<lambda>y. normalForm h y = normalForm h u) segments = Some u}
   \<and> envGet (appendCherryBinToPath linuxHost
               [(''HOME'', ''/home/u''), (''PATH'', ''/usr/bin:/bin:/usr/bin'')]) ''PATH''
       = Some ''/usr/bin:/bin:/home/u/.cherrystudio/bin''
   \<and> envGet (appendCherryBinToPath winHost mixedCaseEnv) ''Path''
       = Some (joinWith bs [''C:'', ''Tools''] @ '';'' @ joinWith bs [''C:'', ''Other''] @ '';''
               @ joinWith bs [''C:'', ''Users'', ''TestUser'', ''.cherrystudio'', ''bin''])"
proof (intro conjI impI)
  assume "(k \<in> set (envKeys env) \<and> toLowerCase k = ''path'')
      \<or> (\<not> isWin h \<and> k = ''PATH'')
      \<or> (isWin h \<and> k = ''Path'' \<and> \<not> (\<exists>k' \<in> set (envKeys env). toLowerCase k' = ''path''))"
  then show "envGet (appendCherryBinToPath h env) k
          = Some (cleanedPath h (existingPathValue h env) (cherryBinPath h env))"
    by (rule path_keys_written)
next
  assume "find (\<lambda>k. toLowerCase k = ''path'') (envKeys env) = Some k"
  then show "existingPathValue h env
            = (if truthy (envGet env k) then the (envGet env k)
               else orDefault (envGet env ''PATH'') [])"
    by (rule existing_first_key)
next
  assume "\<not> (\<exists>k \<in> set (envKeys env). toLowerCase k = ''path'')"
  then show "existingPathValue h env = []" by (rule existing_no_key)
next
  show "cleanedPath h pathValue toolBin
       = joinWith (if isWin h then CHR '';'' else CHR '':'')
           (keepFirst (normalForm h)
              (filter (\<lambda>s. s \<noteq> [])
                 (map trim (splitOn (if isWin h then CHR '';'' else CHR '':'') pathValue) @ [toolBin])))"
    by (simp add: cleanedPath_def Let_def)
next
  show "normalForm h segment
       = (if isWin h then toLowerCase (path_normalize h segment) else path_normalize h segment)"
    by (simp add: normalForm_def)
next
  show "distinct (map (normalForm h) (keepFirst (normalForm h) segments))"
    by (rule distinct_keepFirst)
next
  show "set (keepFirst (normalForm h) segments)
       = {u. find (\<lambda>y. normalForm h y = normalForm h u) segments = Some u}"
    by (rule set_keepFirst_first)
next
  show "envGet (appendCherryBinToPath linuxHost
               [(''HOME'', ''/home/u''), (''PATH'', ''/usr/bin:/bin:/usr/bin'')]) ''PATH''
       = Some ''/usr/bin:/bin:/home/u/.cherrystudio/bin''"
    by code_simp
next
  show "envGet (appendCherryBinToPath winHost mixedCaseEnv) ''Path''
       = Some (joinWith bs [''C:'', ''Tools''] @ '';'' @ joinWith bs [''C:'', ''Other''] @ '';''
               @ joinWith bs [''C:'', ''Users'', ''TestUser'', ''.cherrystudio'', ''bin''])"
    by code_simp
qed

text \<open>
  The theorem on the Windows host, where two segments differ by case only and a fourth
  normalises to the third up to case; on an environment without PATH; and on the
  environment with the keys \<open>path\<close> and \<open>PATH\<close>, which receive the same value.
\<close>

theorem C10_read_path_deduplicated_witness:
  "''Path'' \<in> set (envKeys mixedCaseEnv) \<and> toLowerCase ''Path'' = ''path''
   \<and> find (\<lambda>k. toLowerCase k = ''path'') (envKeys mixedCaseEnv) = Some ''Path''
   \<and> existingPathValue winHost mixedCaseEnv
       = joinWith bs [''C:'', ''Tools''] @ '';'' @ joinWith bs [''c:'', ''TOOLS''] @ '';''
         @ joinWith bs [''C:'', ''Other''] @ '';'' @ joinWith bs [''C:'', ''Tools'', ''..'', ''other'']
   \<and> normalForm winHost (joinWith bs [''c:'', ''TOOLS''])
       = normalForm winHost (joinWith bs [''C:'', ''Tools''])
   \<and> normalForm winHost (joinWith bs [''C:'', ''Tools'', ''..'', ''other''])
       = normalForm winHost (joinWith bs [''C:'', ''Other''])
   \<and> normalForm linuxHost ''/usr/BIN'' \<noteq> normalForm linuxHost ''/usr/bin''
   \<and> envGet (appendCherryBinToPath winHost mixedCaseEnv) ''Path''
       = Some (cleanedPath winHost (existingPathValue winHost mixedCaseEnv)
                 (cherryBinPath winHost mixedCaseEnv))
   \<and> cleanedPath winHost (existingPathValue winHost mixedCaseEnv) (cherryBinPath winHost mixedCaseEnv)
       = joinWith bs [''C:'', ''Tools''] @ '';'' @ joinWith bs [''C:'', ''Other''] @ '';''
         @ joinWith bs [''C:'', ''Users'', ''TestUser'', ''.cherrystudio'', ''bin'']
   \<and> \<not> (\<exists>k \<in> set (envKeys [(''HOME'', ''/home/u'')]). toLowerCase k = ''path'')
   \<and> existingPathValue linuxHost [(''HOME'', ''/home/u'')] = []
   \<and> \<not> isWin linuxHost
   \<and> envGet (appendCherryBinToPath linuxHost twoKeyEnv) ''path''
       = envGet (appendCherryBinToPath linuxHost twoKeyEnv) ''PATH''
   \<and> existingPathValue linuxHost twoKeyEnv = ''/x''"
proof -
  have a: "''Path'' \<in> set (envKeys mixedCaseEnv)" "toLowerCase ''Path'' = ''path''"
    "find (\<lambda>k. toLowerCase k = ''path'') (envKeys mixedCaseEnv) = Some ''Path''"
    "truthy (envGet mixedCaseEnv ''Path'')"
    "the (envGet mixedCaseEnv ''Path'')
       = joinWith bs [''C:'', ''Tools''] @ '';'' @ joinWith bs [''c:'', ''TOOLS''] @ '';''
         @ joinWith bs [''C:'', ''Other''] @ '';'' @ joinWith bs [''C:'', ''Tools'', ''..'', ''other'']"
    by code_simp+
  have n: "normalForm winHost (joinWith bs [''c:'', ''TOOLS''])
       = normalForm winHost (joinWith bs [''C:'', ''Tools''])"
    "normalForm winHost (joinWith bs [''C:'', ''Tools'', ''..'', ''other''])
       = normalForm winHost (joinWith bs [''C:'', ''Other''])"
    "normalForm linuxHost ''/usr/BIN'' \<noteq> normalForm linuxHost ''/usr/bin''"
    by code_simp+
  have c: "cleanedPath winHost
             (joinWith bs [''C:'', ''Tools''] @ '';'' @ joinWith bs [''c:'', ''TOOLS''] @ '';''
              @ joinWith bs [''C:'', ''Other''] @ '';'' @ joinWith bs [''C:'', ''Tools'', ''..'', ''other''])
             (cherryBinPath winHost mixedCaseEnv)
       = joinWith bs [''C:'', ''Tools''] @ '';'' @ joinWith bs [''C:'', ''Other''] @ '';''
         @ joinWith bs [''C:'', ''Users'', ''TestUser'', ''.cherrystudio'', ''bin'']"
    by code_simp
  have e: "\<not> (\<exists>k \<in> set (envKeys [(''HOME'', ''/home/u'')]). toLowerCase k = ''path'')"
    "\<not> isWin linuxHost" "''path'' \<in> set (envKeys twoKeyEnv)" "toLowerCase ''path'' = ''path''"
    "find (\<lambda>k. toLowerCase k = ''path'') (envKeys twoKeyEnv) = Some ''path''"
    "truthy (envGet twoKeyEnv ''path'')" "the (envGet twoKeyEnv ''path'') = ''/x''"
    by code_simp+
  note W = C10_read_path_deduplicated[of "''Path''" mixedCaseEnv winHost]
  note H = C10_read_path_deduplicated[of "''HOME''" "[(''HOME'', ''/home/u'')]" linuxHost]
  note T1 = C10_read_path_deduplicated[of "''path''" twoKeyEnv linuxHost]
  note T2 = C10_read_path_deduplicated[of "''PATH''" twoKeyEnv linuxHost]
  from W a have w1: "envGet (appendCherryBinToPath winHost mixedCaseEnv) ''Path''
       = Some (cleanedPath winHost (existingPathValue winHost mixedCaseEnv)
                 (cherryBinPath winHost mixedCaseEnv))" by blast
  from W a(3) have w2: "existingPathValue winHost mixedCaseEnv
      = (if truthy (envGet mixedCaseEnv ''Path'') then the (envGet mixedCaseEnv ''Path'')
         else orDefault (envGet mixedCaseEnv ''PATH'') [])" by blast
  have w3: "existingPathValue winHost mixedCaseEnv
       = joinWith bs [''C:'', ''Tools''] @ '';'' @ joinWith bs [''c:'', ''TOOLS''] @ '';''
         @ joinWith bs [''C:'', ''Other''] @ '';'' @ joinWith bs [''C:'', ''Tools'', ''..'', ''other'']"
    unfolding w2 using a(4,5) by simp
  have w4: "cleanedPath winHost (existingPathValue winHost mixedCaseEnv) (cherryBinPath winHost mixedCaseEnv)
       = joinWith bs [''C:'', ''Tools''] @ '';'' @ joinWith bs [''C:'', ''Other''] @ '';''
         @ joinWith bs [''C:'', ''Users'', ''TestUser'', ''.cherrystudio'', ''bin'']"
    unfolding w3 by (rule c)
  from H e(1) have h1: "existingPathValue linuxHost [(''HOME'', ''/home/u'')] = []" by blast
  from T1 e(3,4) have t1: "envGet (appendCherryBinToPath linuxHost twoKeyEnv) ''path''
       = Some (cleanedPath linuxHost (existingPathValue linuxHost twoKeyEnv)
                 (cherryBinPath linuxHost twoKeyEnv))" by blast
  from T2 e(2) have t2: "envGet (appendCherryBinToPath linuxHost twoKeyEnv) ''PATH''
       = Some (cleanedPath linuxHost (existingPathValue linuxHost twoKeyEnv)
                 (cherryBinPath linuxHost twoKeyEnv))" by blast
  from T1 e(5) have t3: "existingPathValue linuxHost twoKeyEnv
      = (if truthy (envGet twoKeyEnv ''path'') then the (envGet twoKeyEnv ''path'')
         else orDefault (envGet twoKeyEnv ''PATH'') [])" by blast
  have t4: "existingPathValue linuxHost twoKeyEnv = ''/x''" unfolding t3 using e(6,7) by simp
  show ?thesis using a(1,2,3) w3 n w1 w4 e(1,2) h1 t1 t2 t4 by simp
qed

text \<open>
  The claim C5 as it is written fails twice on the Linux host.  With \<open>HOME=/a:b\<close> the
  tool-bin directory holds the separator, and the second application appends it once
  more.  With \<open>PATH=/home/u/.cherrystudio/bin/\<close> the segment differs from the tool-bin
  directory by its trailing slash only, \<open>path.normalize\<close> keeps that slash, and the
  directory is appended all the same.
\<close>

theorem C5_append_twice_counterexample:
  "appendCherryBinToPath linuxHost
       (appendCherryBinToPath linuxHost [(''HOME'', ''/a:b''), (''PATH'', ''/usr/bin'')])
     \<noteq> appendCherryBinToPath linuxHost [(''HOME'', ''/a:b''), (''PATH'', ''/usr/bin'')]
   \<and> appendCherryBinToPath linuxHost
         [(''HOME'', ''/home/u''), (''PATH'', ''/home/u/.cherrystudio/bin/'')]
       = [(''HOME'', ''/home/u''),
          (''PATH'', ''/home/u/.cherrystudio/bin/:/home/u/.cherrystudio/bin'')]"
proof -
  have a: "appendCherryBinToPath linuxHost [(''HOME'', ''/a:b''), (''PATH'', ''/usr/bin'')]
           = [(''HOME'', ''/a:b''), (''PATH'', ''/usr/bin:/a:b/.cherrystudio/bin'')]"
    by code_simp
  have b: "appendCherryBinToPath linuxHost
             [(''HOME'', ''/a:b''), (''PATH'', ''/usr/bin:/a:b/.cherrystudio/bin'')]
           = [(''HOME'', ''/a:b''),
              (''PATH'', ''/usr/bin:/a:b/.cherrystudio/bin:/a:b/.cherrystudio/bin'')]"
    by code_simp
  have c: "appendCherryBinToPath linuxHost
         [(''HOME'', ''/home/u''), (''PATH'', ''/home/u/.cherrystudio/bin/'')]
       = [(''HOME'', ''/home/u''),
          (''PATH'', ''/home/u/.cherrystudio/bin/:/home/u/.cherrystudio/bin'')]"
    by code_simp
  show ?thesis unfolding a b c by simp
qed

text \<open>
  C5 (amended): \<open>appendCherryBinToPath\<close> is idempotent whenever the tool-bin directory it
  computes holds no PATH separator and has no white space at its ends: the second
  application returns the environment of the first.  Segments are compared after
  \<open>path.normalize\<close> and, on Windows only, lower-casing.  When a trimmed, non-empty
  segment of PATH has the normalised form of the tool-bin directory (on Windows, for one,
  when it differs by case only), nothing is appended; otherwise the directory is
  appended last.
\<close>

theorem C5_append_idempotent:
  "(pathSeparator h \<notin> set (cherryBinPath h env) \<and> trim (cherryBinPath h env) = cherryBinPath h env
      \<longrightarrow> appendCherryBinToPath h (appendCherryBinToPath h env) = appendCherryBinToPath h env)
   \<and> normaliseSegment h segment =
       (if isWin h then toLowerCase (path_normalize h segment) else path_normalize h segment)
   \<and> ((\<exists>s \<in> set (existingSegments h env).
          s \<noteq> [] \<and> normaliseSegment h s = normaliseSegment h (cherryBinPath h env))
        \<longrightarrow> uniqueSegments h env =
              keepFirst (normaliseSegment h) (filter (\<lambda>x. x \<noteq> []) (existingSegments h env)))
   \<and> (cherryBinPath h env \<noteq> []
        \<and> \<not> (\<exists>s \<in> set (existingSegments h env).
                s \<noteq> [] \<and> normaliseSegment h s = normaliseSegment h (cherryBinPath h env))
        \<longrightarrow> uniqueSegments h env =
              keepFirst (normaliseSegment h) (filter (\<lambda>x. x \<noteq> []) (existingSegments h env))
              @ [cherryBinPath h env])"
proof (intro conjI impI)
  assume "pathSeparator h \<notin> set (cherryBinPath h env) \<and> trim (cherryBinPath h env) = cherryBinPath h env"
  then show "appendCherryBinToPath h (appendCherryBinToPath h env) = appendCherryBinToPath h env"
    by (intro appendCherryBinToPath_idem) simp_all
next
  show "normaliseSegment h segment =
       (if isWin h then toLowerCase (path_normalize h segment) else path_normalize h segment)"
    by (simp add: normaliseSegment_def)
next
  assume "\<exists>s \<in> set (existingSegments h env).
          s \<noteq> [] \<and> normaliseSegment h s = normaliseSegment h (cherryBinPath h env)"
  then have "normaliseSegment h (cherryBinPath h env)
             \<in> normaliseSegment h ` set (filter (\<lambda>x. x \<noteq> []) (existingSegments h env))"
    by (auto simp: image_iff)
  then show "uniqueSegments h env =
              keepFirst (normaliseSegment h) (filter (\<lambda>x. x \<noteq> []) (existingSegments h env))"
    by (cases "cherryBinPath h env = []") (simp_all add: uniqueSegments_keepFirst keepFirst_snoc)
next
  assume a: "cherryBinPath h env \<noteq> []
        \<and> \<not> (\<exists>s \<in> set (existingSegments h env).
                s \<noteq> [] \<and> normaliseSegment h s = normaliseSegment h (cherryBinPath h env))"
  then have "normaliseSegment h (cherryBinPath h env)
             \<notin> normaliseSegment h ` set (filter (\<lambda>x. x \<noteq> []) (existingSegments h env))"
    by (auto simp: image_iff)
  then show "uniqueSegments h env =
              keepFirst (normaliseSegment h) (filter (\<lambda>x. x \<noteq> []) (existingSegments h env))
              @ [cherryBinPath h env]"
    using a by (simp add: uniqueSegments_keepFirst keepFirst_snoc)
qed

text \<open>The theorem on the Linux host, where the directory is appended once, and on the
  Windows host with a PATH that holds the directory in another case.\<close>

theorem C5_append_idempotent_witness:
  "pathSeparator linuxHost \<notin> set (cherryBinPath linuxHost (process_env linuxHost))
   \<and> trim (cherryBinPath linuxHost (process_env linuxHost))
       = cherryBinPath linuxHost (process_env linuxHost)
   \<and> appendCherryBinToPath linuxHost (appendCherryBinToPath linuxHost (process_env linuxHost))
       = [(''HOME'', ''/home/u''), (''PATH'', ''/usr/bin:/home/u/.cherrystudio/bin'')]
   \<and> (\<exists>s \<in> set (existingSegments winHost upperBinEnv).
         s \<noteq> [] \<and> normaliseSegment winHost s
                    = normaliseSegment winHost (cherryBinPath winHost upperBinEnv))
   \<and> uniqueSegments winHost upperBinEnv
       = [joinWith bs [''C:'', ''USERS'', ''testuser'', ''.CherryStudio'', ''BIN'']]
   \<and> cherryBinPath linuxHost (process_env linuxHost) \<noteq> []
   \<and> \<not> (\<exists>s \<in> set (existingSegments linuxHost (process_env linuxHost)).
           s \<noteq> [] \<and> normaliseSegment linuxHost s
                      = normaliseSegment linuxHost (cherryBinPath linuxHost (process_env linuxHost)))
   \<and> uniqueSegments linuxHost (process_env linuxHost) = [''/usr/bin'', ''/home/u/.cherrystudio/bin'']"
proof -
  have bin: "cherryBinPath linuxHost (process_env linuxHost) = ''/home/u/.cherrystudio/bin''"
    by code_simp
  have sep: "pathSeparator linuxHost = CHR '':''" by code_simp
  have tr: "trim ''/home/u/.cherrystudio/bin'' = ''/home/u/.cherrystudio/bin''" by code_simp
  have once: "appendCherryBinToPath linuxHost (process_env linuxHost)
          = [(''HOME'', ''/home/u''), (''PATH'', ''/usr/bin:/home/u/.cherrystudio/bin'')]"
    by code_simp
  have segs: "existingSegments linuxHost (process_env linuxHost) = [''/usr/bin'']" by code_simp
  have n1: "normaliseSegment linuxHost ''/usr/bin'' = ''/usr/bin''" by code_simp
  have n2: "normaliseSegment linuxHost ''/home/u/.cherrystudio/bin'' = ''/home/u/.cherrystudio/bin''"
    by code_simp
  have k1: "keepFirst (normaliseSegment linuxHost) [''/usr/bin''] = [''/usr/bin'']" by code_simp
  have wsegs: "existingSegments winHost upperBinEnv
          = [joinWith bs [''C:'', ''USERS'', ''testuser'', ''.CherryStudio'', ''BIN'']]"
    by code_simp
  have wn: "normaliseSegment winHost (joinWith bs [''C:'', ''USERS'', ''testuser'', ''.CherryStudio'', ''BIN''])
          = normaliseSegment winHost (cherryBinPath winHost upperBinEnv)"
    by code_simp
  have wk: "keepFirst (normaliseSegment winHost)
              [joinWith bs [''C:'', ''USERS'', ''testuser'', ''.CherryStudio'', ''BIN'']]
            = [joinWith bs [''C:'', ''USERS'', ''testuser'', ''.CherryStudio'', ''BIN'']]"
    by code_simp
  have wex: "\<exists>s \<in> set (existingSegments winHost upperBinEnv).
         s \<noteq> [] \<and> normaliseSegment winHost s
                    = normaliseSegment winHost (cherryBinPath winHost upperBinEnv)"
    unfolding wsegs using wn by simp
  have lno: "\<not> (\<exists>s \<in> set (existingSegments linuxHost (process_env linuxHost)).
           s \<noteq> [] \<and> normaliseSegment linuxHost s
                      = normaliseSegment linuxHost (cherryBinPath linuxHost (process_env linuxHost)))"
    unfolding segs bin by (simp add: n1 n2)
  have h1: "pathSeparator linuxHost \<notin> set (cherryBinPath linuxHost (process_env linuxHost))
            \<and> trim (cherryBinPath linuxHost (process_env linuxHost))
                = cherryBinPath linuxHost (process_env linuxHost)"
    unfolding bin sep tr by simp
  have h3: "cherryBinPath linuxHost (process_env linuxHost) \<noteq> []" unfolding bin by simp
  note L = C5_append_idempotent[of linuxHost "process_env linuxHost" "[]"]
  note W = C5_append_idempotent[of winHost upperBinEnv "[]"]
  from L h1 have i: "appendCherryBinToPath linuxHost (appendCherryBinToPath linuxHost (process_env linuxHost))
       = appendCherryBinToPath linuxHost (process_env linuxHost)" by blast
  from W wex have w: "uniqueSegments winHost upperBinEnv =
      keepFirst (normaliseSegment winHost) (filter (\<lambda>x. x \<noteq> []) (existingSegments winHost upperBinEnv))"
    by blast
  from L h3 lno have l: "uniqueSegments linuxHost (process_env linuxHost) =
      keepFirst (normaliseSegment linuxHost)
        (filter (\<lambda>x. x \<noteq> []) (existingSegments linuxHost (process_env linuxHost)))
      @ [cherryBinPath linuxHost (process_env linuxHost)]" by blast
  have w': "uniqueSegments winHost upperBinEnv
       = [joinWith bs [''C:'', ''USERS'', ''testuser'', ''.CherryStudio'', ''BIN'']]"
    unfolding w wsegs using wk by simp
  have l': "uniqueSegments linuxHost (process_env linuxHost) = [''/usr/bin'', ''/home/u/.cherrystudio/bin'']"
    unfolding l segs bin using k1 by simp
  show ?thesis using h1 h3 i once wex lno w' l' by simp
qed

section \<open>Expanding \<open>%VAR%\<close>\<close>

lemma expand_literal:
  "CHR ''%'' \<notin> set s \<Longrightarrow> expandWindowsEnvVars (s @ r) env = s @ expandWindowsEnvVars r env"
  by (induction s) auto

lemma expand_token:
  assumes "name \<noteq> []" and "CHR ''%'' \<notin> set name"
  shows "expandWindowsEnvVars (CHR ''%'' # name @ CHR ''%'' # r) env
         = replaceVar env name @ expandWindowsEnvVars r env"
proof -
  have n: "\<And>x. x \<in> set name \<Longrightarrow> x \<noteq> CHR ''%''" using assms(2) by blast
  have t: "takeWhile (\<lambda>x. x \<noteq> CHR ''%'') (name @ CHR ''%'' # r) = name"
    using n by (simp add: takeWhile_append2)
  have d: "dropWhile (\<lambda>x. x \<noteq> CHR ''%'') (name @ CHR ''%'' # r) = CHR ''%'' # r"
    using n by (simp add: dropWhile_append2)
  show ?thesis using assms(1) by (simp add: t d)
qed

lemma toLowerCase_Nil_iff: "toLowerCase k = [] \<longleftrightarrow> k = []"
  by (simp add: toLowerCase_def)

lemma envGet_key: "k \<in> set (envKeys env) \<Longrightarrow> \<exists>v. envGet env k = Some v"
  by (cases "envGet env k") (auto simp: envGet_None_iff)

lemma replaceVar_expanded:
  assumes "name \<noteq> []"
  shows "replaceVar env name = expanded env (Token name)"
proof (cases "matchingKeys env name")
  case Nil
  then show ?thesis by (simp add: replaceVar_def find_filter_hd matchingKeys_def)
next
  case (Cons key rest)
  then have "key \<in> set (matchingKeys env name)" by simp
  then have k: "key \<in> set (envKeys env)" "toLowerCase key = toLowerCase name"
    by (auto simp: matchingKeys_def)
  then have ne: "key \<noteq> []" using assms toLowerCase_Nil_iff by metis
  obtain v where v: "envGet env key = Some v" using envGet_key[OF k(1)] by blast
  have "find (\<lambda>k. toLowerCase k = toLowerCase name) (envKeys env) = Some key"
    using Cons by (simp add: find_filter_hd matchingKeys_def)
  then show ?thesis using Cons ne v by (simp add: replaceVar_def)
qed

lemma expand_pieces:
  "list_all wellFormed pieces \<Longrightarrow>
     expandWindowsEnvVars (concat (map render pieces) @ r) env
       = concat (map (expanded env) pieces) @ expandWindowsEnvVars r env"
proof (induction pieces)
  case Nil
  then show ?case by simp
next
  case (Cons p ps)
  then have ih: "expandWindowsEnvVars (concat (map render ps) @ r) env
       = concat (map (expanded env) ps) @ expandWindowsEnvVars r env" by simp
  show ?case
  proof (cases p)
    case (Literal s)
    then have "CHR ''%'' \<notin> set s" using Cons.prems by simp
    then show ?thesis using Literal ih by (simp add: expand_literal)
  next
    case (Token name)
    then have n: "name \<noteq> []" "CHR ''%'' \<notin> set name" using Cons.prems by simp_all
    have "expandWindowsEnvVars (CHR ''%'' # name @ CHR ''%'' # (concat (map render ps) @ r)) env
          = replaceVar env name @ expandWindowsEnvVars (concat (map render ps) @ r) env"
      using n by (rule expand_token)
    then show ?thesis using Token ih n by (simp add: replaceVar_expanded)
  qed
qed

lemma expand_empty_pair:
  "CHR ''%'' \<notin> set pre \<Longrightarrow>
     expandWindowsEnvVars (pre @ CHR ''%'' # CHR ''%'' # rest) env
       = pre @ CHR ''%'' # expandWindowsEnvVars (CHR ''%'' # rest) env"
  by (simp add: expand_literal)

lemma expand_unpaired:
  assumes "CHR ''%'' \<notin> set pre" and "CHR ''%'' \<notin> set tail"
  shows "expandWindowsEnvVars (pre @ CHR ''%'' # tail) env = pre @ CHR ''%'' # tail"
proof -
  have n: "\<And>x. x \<in> set tail \<Longrightarrow> x \<noteq> CHR ''%''" using assms(2) by blast
  have d: "dropWhile (\<lambda>x. x \<noteq> CHR ''%'') tail = []" using n by simp
  have t: "expandWindowsEnvVars tail env = tail"
    using expand_literal[OF assms(2), of "[]" env] by simp
  have "expandWindowsEnvVars (CHR ''%'' # tail) env = CHR ''%'' # tail"
    using d t by simp
  then show ?thesis using assms(1) by (simp add: expand_literal)
qed

text \<open>
  The claim C6 as it is written fails when a percent sign stands before the token.  In
  \<open>50%;%PATH%\<close> the first two percent signs are paired, around the name \<open>;\<close> that no key
  matches, the last one has no partner, and \<open>%PATH%\<close> stays although the key \<open>PATH\<close>
  is there.
\<close>

theorem C6_stray_percent_counterexample:
  "expandWindowsEnvVars ''50%;%PATH%'' [(''PATH'', ''C:'' @ bs # ''bin'')] = ''50%;%PATH%''
   \<and> matchingKeys [(''PATH'', ''C:'' @ bs # ''bin'')] ''PATH'' = [''PATH'']"
  by code_simp

text \<open>
  C6 (amended): \<open>expandWindowsEnvVars\<close> reads the value from left to right and pairs
  its percent signs.  The text before the first percent sign is kept.  A percent sign,
  one or more characters other than the percent sign and the next percent sign make a
  token, and the reading resumes after it; a percent sign followed at once by another is
  kept, and the reading resumes at the second; a percent sign with none after it is kept
  with the rest of the value.  A token whose name equals a key of the environment map
  without regard to case is replaced by the value of the first such key, and a token with
  no such key is kept as it stands.  So a value made of literal text without percent
  signs and of tokens expands piece by piece; \<open>%SystemRoot%\system32\<close> with
  \<open>SystemRoot=C:\Windows\<close> becomes \<open>C:\Windows\system32\<close>, and \<open>%UNKNOWN%\bin\<close> stays.
\<close>

theorem C6_percent_pairs_expanded:
  "(CHR ''%'' \<notin> set pre \<and> name \<noteq> [] \<and> CHR ''%'' \<notin> set name \<longrightarrow>
      expandWindowsEnvVars (pre @ CHR ''%'' # name @ CHR ''%'' # rest) env
        = pre @ expanded env (Token name) @ expandWindowsEnvVars rest env)
   \<and> (CHR ''%'' \<notin> set pre \<longrightarrow>
        expandWindowsEnvVars (pre @ CHR ''%'' # CHR ''%'' # rest) env
          = pre @ CHR ''%'' # expandWindowsEnvVars (CHR ''%'' # rest) env)
   \<and> (CHR ''%'' \<notin> set pre \<and> CHR ''%'' \<notin> set rest \<longrightarrow>
        expandWindowsEnvVars (pre @ CHR ''%'' # rest) env = pre @ CHR ''%'' # rest)
   \<and> (CHR ''%'' \<notin> set pre \<longrightarrow> expandWindowsEnvVars pre env = pre)
   \<and> (matchingKeys env name = [] \<longrightarrow> expanded env (Token name) = CHR ''%'' # name @ ''%'')
   \<and> (matchingKeys env name \<noteq> [] \<longrightarrow>
        envGet env (hd (matchingKeys env name)) = Some (expanded env (Token name)))
   \<and> (list_all wellFormed pieces \<longrightarrow>
        expandWindowsEnvVars (concat (map render pieces)) env = concat (map (expanded env) pieces))
   \<and> expandWindowsEnvVars (''%SystemRoot%'' @ bs # ''system32'')
         [(''SystemRoot'', ''C:'' @ bs # ''Windows'')]
       = ''C:'' @ bs # ''Windows'' @ bs # ''system32''
   \<and> expandWindowsEnvVars (''%UNKNOWN%'' @ bs # ''bin'')
         [(''SystemRoot'', ''C:'' @ bs # ''Windows'')]
       = ''%UNKNOWN%'' @ bs # ''bin''"
proof (intro conjI impI)
  assume a: "CHR ''%'' \<notin> set pre \<and> name \<noteq> [] \<and> CHR ''%'' \<notin> set name"
  then have "expandWindowsEnvVars (CHR ''%'' # name @ CHR ''%'' # rest) env
             = replaceVar env name @ expandWindowsEnvVars rest env"
    by (intro expand_token) simp_all
  then show "expandWindowsEnvVars (pre @ CHR ''%'' # name @ CHR ''%'' # rest) env
        = pre @ expanded env (Token name) @ expandWindowsEnvVars rest env"
    using a expand_literal[of pre "CHR ''%'' # name @ CHR ''%'' # rest" env]
    by (simp add: replaceVar_expanded)
next
  assume "CHR ''%'' \<notin> set pre"
  then show "expandWindowsEnvVars (pre @ CHR ''%'' # CHR ''%'' # rest) env
          = pre @ CHR ''%'' # expandWindowsEnvVars (CHR ''%'' # rest) env"
    by (rule expand_empty_pair)
next
  assume "CHR ''%'' \<notin> set pre \<and> CHR ''%'' \<notin> set rest"
  then show "expandWindowsEnvVars (pre @ CHR ''%'' # rest) env = pre @ CHR ''%'' # rest"
    by (intro expand_unpaired) simp_all
next
  assume "CHR ''%'' \<notin> set pre"
  then show "expandWindowsEnvVars pre env = pre"
    using expand_literal[of pre "[]" env] by simp
next
  assume "matchingKeys env name = []"
  then show "expanded env (Token name) = CHR ''%'' # name @ ''%''" by simp
next
  assume "matchingKeys env name \<noteq> []"
  then obtain key rest' where c: "matchingKeys env name = key # rest'"
    by (cases "matchingKeys env name") auto
  then have "key \<in> set (matchingKeys env name)" by simp
  then have k: "key \<in> set (envKeys env)" by (auto simp: matchingKeys_def)
  obtain v where v: "envGet env key = Some v" using envGet_key[OF k] by blast
  then show "envGet env (hd (matchingKeys env name)) = Some (expanded env (Token name))"
    using c by simp
next
  assume "list_all wellFormed pieces"
  then show "expandWindowsEnvVars (concat (map render pieces)) env = concat (map (expanded env) pieces)"
    using expand_pieces[of pieces "[]" env] by simp
next
  show "expandWindowsEnvVars (''%SystemRoot%'' @ bs # ''system32'')
         [(''SystemRoot'', ''C:'' @ bs # ''Windows'')]
       = ''C:'' @ bs # ''Windows'' @ bs # ''system32''"
    by code_simp
next
  show "expandWindowsEnvVars (''%UNKNOWN%'' @ bs # ''bin'')
         [(''SystemRoot'', ''C:'' @ bs # ''Windows'')]
       = ''%UNKNOWN%'' @ bs # ''bin''"
    by code_simp
qed

text \<open>
  The theorem on a value with a token in another case, an unknown token and a token
  that two keys match; on \<open>50%;%PATH%\<close>; and on \<open>100%%Path%\<close>, where the pair without a
  name is passed over and the token after it is expanded.
\<close>

theorem C6_percent_pairs_expanded_witness:
  "list_all wellFormed mixedPieces
   \<and> concat (map render mixedPieces)
       = ''%systemroot%'' @ bs # ''system32;%UNKNOWN_VAR%'' @ bs # ''bin;%path%''
   \<and> expandWindowsEnvVars (concat (map render mixedPieces)) mixedEnv
       = ''C:'' @ bs # ''Windows'' @ bs # ''system32;%UNKNOWN_VAR%'' @ bs # ''bin;C:'' @ bs # ''One''
   \<and> matchingKeys mixedEnv ''UNKNOWN_VAR'' = []
   \<and> expanded mixedEnv (Token ''UNKNOWN_VAR'') = ''%UNKNOWN_VAR%''
   \<and> matchingKeys mixedEnv ''path'' = [''Path'', ''PATH'']
   \<and> expanded mixedEnv (Token ''path'') = ''C:'' @ bs # ''One''
   \<and> CHR ''%'' \<notin> set ''50''
   \<and> '';'' \<noteq> [] \<and> CHR ''%'' \<notin> set '';''
   \<and> CHR ''%'' \<notin> set ''PATH''
   \<and> expandWindowsEnvVars (''50'' @ CHR ''%'' # '';'' @ CHR ''%'' # ''PATH%'') mixedEnv
       = ''50%;%PATH%''
   \<and> expandWindowsEnvVars (''100'' @ CHR ''%'' # CHR ''%'' # ''Path%'') mixedEnv
       = ''100%C:'' @ bs # ''One''"
proof -
  have w: "list_all wellFormed mixedPieces" by code_simp
  have r: "concat (map render mixedPieces)
       = ''%systemroot%'' @ bs # ''system32;%UNKNOWN_VAR%'' @ bs # ''bin;%path%''" by code_simp
  have e: "concat (map (expanded mixedEnv) mixedPieces)
       = ''C:'' @ bs # ''Windows'' @ bs # ''system32;%UNKNOWN_VAR%'' @ bs # ''bin;C:'' @ bs # ''One''"
    by code_simp
  have m1: "matchingKeys mixedEnv ''UNKNOWN_VAR'' = []" by code_simp
  have m2: "matchingKeys mixedEnv ''path'' = [''Path'', ''PATH'']" by code_simp
  have m3: "matchingKeys mixedEnv '';'' = []" by code_simp
  have g: "envGet mixedEnv ''Path'' = Some (''C:'' @ bs # ''One'')" by code_simp
  have p: "CHR ''%'' \<notin> set ''50''" "'';'' \<noteq> []" "CHR ''%'' \<notin> set '';''"
    "CHR ''%'' \<notin> set ''PATH''" "CHR ''%'' \<notin> set ''100''" "CHR ''%'' \<notin> set ''''"
    by simp_all
  have t: "expandWindowsEnvVars (CHR ''%'' # ''Path%'') mixedEnv = ''C:'' @ bs # ''One''"
    by code_simp
  note A = C6_percent_pairs_expanded[of "''50''" "'';''" "''PATH%''" mixedEnv mixedPieces]
  note B = C6_percent_pairs_expanded[of "[]" "''UNKNOWN_VAR''" "''PATH''" mixedEnv mixedPieces]
  note C = C6_percent_pairs_expanded[of "''100''" "''path''" "''Path%''" mixedEnv mixedPieces]
  from A p m3 have a1: "expandWindowsEnvVars (''50'' @ CHR ''%'' # '';'' @ CHR ''%'' # ''PATH%'') mixedEnv
      = ''50'' @ (CHR ''%'' # '';'' @ ''%'') @ expandWindowsEnvVars ''PATH%'' mixedEnv"
    by simp
  from B m1 have b3: "expanded mixedEnv (Token ''UNKNOWN_VAR'') = CHR ''%'' # ''UNKNOWN_VAR'' @ ''%''"
    by blast
  from B w have b4: "expandWindowsEnvVars (concat (map render mixedPieces)) mixedEnv
      = concat (map (expanded mixedEnv) mixedPieces)" by blast
  from C p have c1: "expandWindowsEnvVars (''100'' @ CHR ''%'' # CHR ''%'' # ''Path%'') mixedEnv
      = ''100'' @ CHR ''%'' # expandWindowsEnvVars (CHR ''%'' # ''Path%'') mixedEnv" by blast
  have ne: "matchingKeys mixedEnv ''path'' \<noteq> []" unfolding m2 by simp
  from C ne have c0: "envGet mixedEnv (hd (matchingKeys mixedEnv ''path''))
      = Some (expanded mixedEnv (Token ''path''))" by blast
  have c2: "expanded mixedEnv (Token ''path'') = ''C:'' @ bs # ''One''"
    using c0 g m2 by (metis list.sel(1) option.inject)
  have u: "expandWindowsEnvVars ''PATH%'' mixedEnv = ''PATH%''"
    using C6_percent_pairs_expanded[of "''PATH''" "''x''" "[]" mixedEnv mixedPieces] p by simp
  show ?thesis using w r e m1 m2 p a1 b3 b4 c1 c2 t u by simp
qed

section \<open>The environment cache\<close>


lemma queryRegValue_fails: "reg_query h keyPath valueName = None \<Longrightarrow> queryRegValue h keyPath valueName = None"
  by (simp add: queryRegValue_def)














section \<open>\<open>findExecutable\<close> and the working directory\<close>






















text \<open>
  A working directory that is the root of a drive ends with the separator.  On the
  host whose working directory is the root of drive \<open>C:\<close> and whose \<open>where.exe\<close>
  reports \<open>C:\sub\tool.exe\<close>, that path is the result.  The theorem after it is about the
  working directories that do not end with the separator.
\<close>

lemma findExecutable_at_drive_root:
  "process_cwd driveRootHost = ''C:'' @ [bs]
   \<and> findExecutable driveRootHost ''tool'' None None = Some (joinWith bs [''C:'', ''sub'', ''tool.exe''])
   \<and> containingDirectory driveRootHost (joinWith bs [''C:'', ''sub'', ''tool.exe''])
       = joinWith bs [''C:'', ''sub'']"
  by code_simp



section \<open>Git Bash\<close>

lemma endsWith_nonempty: "endsWith s p \<Longrightarrow> p \<noteq> [] \<Longrightarrow> s \<noteq> []"
  by (auto simp: endsWith_def)

lemma validated_nonempty: "snd (validateGitBashPath h candidate) = Some accepted \<Longrightarrow> accepted \<noteq> []"
proof -
  assume "snd (validateGitBashPath h candidate) = Some accepted"
  then have "endsWith (toLowerCase accepted) ''bash.exe''"
    by (auto simp: validateGitBashPath_def Let_def split: if_splits)
  then have "toLowerCase accepted \<noteq> []" by (rule endsWith_nonempty) simp
  then show ?thesis by (simp add: toLowerCase_def)
qed

lemma validated_truthy: "snd (validateGitBashPath h candidate) = Some accepted
  \<Longrightarrow> truthy (snd (validateGitBashPath h candidate))"
  using validated_nonempty by fastforce

text \<open>
  The claim C8 as it is written fails: the file \<open>C:\tools\notbash.exe\<close> exists and is
  accepted, its name being \<open>notbash.exe\<close>; and the empty candidate is rejected without a
  log line.
\<close>

theorem C8_not_named_bash_counterexample:
  "validateGitBashPath notBashHost (Some notBash) = ([Log Debug], Some notBash)
   \<and> toLowerCase (last (splitOn bs notBash)) \<noteq> ''bash.exe''
   \<and> validateGitBashPath notBashHost (Some []) = ([], None)"
  by code_simp

text \<open>
  C8 (amended): \<open>validateGitBashPath\<close> accepts a candidate if and only if it is a
  non-empty string whose resolved path exists on disk and, lower-cased, ends with
  \<open>bash.exe\<close>; the accepted value is the resolved path.  Every other candidate yields
  \<open>null\<close>, with a warning logged unless the candidate is absent or empty.
\<close>

theorem C8_validation_by_suffix:
  "(snd (validateGitBashPath h candidate) = Some accepted
      \<longleftrightarrow> (\<exists>p. candidate = Some p \<and> p \<noteq> [] \<and> accepted = path_resolve h p
               \<and> fs_existsSync h (path_resolve h p)
               \<and> endsWith (toLowerCase (path_resolve h p)) ''bash.exe''))
   \<and> (snd (validateGitBashPath h candidate) = None
      \<longrightarrow> fst (validateGitBashPath h candidate) = (if truthy candidate then [Log Warn] else []))
   \<and> (snd (validateGitBashPath h candidate) \<noteq> None
      \<longrightarrow> fst (validateGitBashPath h candidate) = [Log Debug])"
proof (intro conjI impI)
  show "snd (validateGitBashPath h candidate) = Some accepted
      \<longleftrightarrow> (\<exists>p. candidate = Some p \<and> p \<noteq> [] \<and> accepted = path_resolve h p
               \<and> fs_existsSync h (path_resolve h p)
               \<and> endsWith (toLowerCase (path_resolve h p)) ''bash.exe'')"
    by (cases candidate) (auto simp: validateGitBashPath_def Let_def)
next
  assume "snd (validateGitBashPath h candidate) = None"
  then show "fst (validateGitBashPath h candidate) = (if truthy candidate then [Log Warn] else [])"
    by (auto simp: validateGitBashPath_def Let_def split: if_splits)
next
  assume "snd (validateGitBashPath h candidate) \<noteq> None"
  then show "fst (validateGitBashPath h candidate) = [Log Debug]"
    by (auto simp: validateGitBashPath_def Let_def split: if_splits)
qed

text \<open>The theorem on the Windows host at \<open>bash.exe\<close>, at \<open>git.exe\<close> and at no candidate.\<close>

theorem C8_validation_by_suffix_witness:
  "snd (validateGitBashPath winHost (Some gitBash)) = Some gitBash
   \<and> gitBash \<noteq> [] \<and> gitBash = path_resolve winHost gitBash
   \<and> fs_existsSync winHost (path_resolve winHost gitBash)
   \<and> endsWith (toLowerCase (path_resolve winHost gitBash)) ''bash.exe''
   \<and> fst (validateGitBashPath winHost (Some gitBash)) = [Log Debug]
   \<and> snd (validateGitBashPath winHost (Some gitCmd)) = None
   \<and> fst (validateGitBashPath winHost (Some gitCmd)) = [Log Warn]
   \<and> snd (validateGitBashPath winHost None) = None
   \<and> fst (validateGitBashPath winHost None) = []"
proof -
  have a: "gitBash \<noteq> []" "gitBash = path_resolve winHost gitBash"
    "fs_existsSync winHost (path_resolve winHost gitBash)"
    "endsWith (toLowerCase (path_resolve winHost gitBash)) ''bash.exe''"
    by code_simp+
  have b: "snd (validateGitBashPath winHost (Some gitCmd)) = None"
    "snd (validateGitBashPath winHost None) = None" "truthy (Some gitCmd)"
    by code_simp+
  note G = C8_validation_by_suffix[of winHost "Some gitBash" gitBash]
  note C = C8_validation_by_suffix[of winHost "Some gitCmd" gitBash]
  note N = C8_validation_by_suffix[of winHost None gitBash]
  from G a have g1: "snd (validateGitBashPath winHost (Some gitBash)) = Some gitBash" by blast
  with G have g2: "fst (validateGitBashPath winHost (Some gitBash)) = [Log Debug]" by simp
  from C b have c1: "fst (validateGitBashPath winHost (Some gitCmd)) = [Log Warn]" by simp
  from N b have n1: "fst (validateGitBashPath winHost None) = []" by simp
  show ?thesis using a b g1 g2 c1 n1 by simp
qed

text \<open>
  The claim C7 as it is written fails for \<open>findGitBash\<close>: with a valid override and a
  valid configured path passed as \<open>customPath\<close>, the result is the configured path.
\<close>

theorem C7_config_before_override_counterexample:
  "findGitBash overrideHost (Some gitBash) = Some gitBash
   \<and> envOverride overrideHost = Some overrideBash
   \<and> snd (validateGitBashPath overrideHost (Some overrideBash)) = Some overrideBash
   \<and> snd (validateGitBashPath overrideHost (Some gitBash)) = Some gitBash
   \<and> gitBash \<noteq> overrideBash"
  by code_simp

text \<open>
  C7 (amended): on Windows, in \<open>autoDiscoverGitBash\<close> the override variable
  \<open>CLAUDE_CODE_GIT_BASH_PATH\<close>, when set and valid, wins over the persisted configured
  path whatever that is, and the configuration stays as it was.  In
  \<open>findGitBash(customPath)\<close> the order is the other one: a valid \<open>customPath\<close> is returned
  before the override is read, and a valid override is returned when \<open>customPath\<close> is
  absent or invalid.
\<close>

theorem C7_override_precedence:
  "(isWin h \<and> truthy (envOverride h)
      \<and> snd (validateGitBashPath h (envOverride h)) = Some fromOverride
      \<longrightarrow> autoDiscoverGitBash h cfg = (Some fromOverride, cfg))
   \<and> (isWin h \<and> truthy customPath
      \<and> snd (validateGitBashPath h customPath) = Some fromCustom
      \<longrightarrow> findGitBash h customPath = Some fromCustom)
   \<and> (isWin h \<and> snd (validateGitBashPath h customPath) = None
      \<and> truthy (envOverride h)
      \<and> snd (validateGitBashPath h (envOverride h)) = Some fromOverride
      \<longrightarrow> findGitBash h customPath = Some fromOverride)"
proof (intro conjI impI)
  assume a: "isWin h \<and> truthy (envOverride h)
      \<and> snd (validateGitBashPath h (envOverride h)) = Some fromOverride"
  then have "truthy (snd (validateGitBashPath h (envOverride h)))" using validated_truthy by blast
  then show "autoDiscoverGitBash h cfg = (Some fromOverride, cfg)"
    using a by (simp add: autoDiscoverGitBash_def Let_def)
next
  assume a: "isWin h \<and> truthy customPath
      \<and> snd (validateGitBashPath h customPath) = Some fromCustom"
  then have "truthy (snd (validateGitBashPath h customPath))" using validated_truthy by blast
  then show "findGitBash h customPath = Some fromCustom"
    using a by (simp add: findGitBash_def Let_def)
next
  assume a: "isWin h \<and> snd (validateGitBashPath h customPath) = None
      \<and> truthy (envOverride h)
      \<and> snd (validateGitBashPath h (envOverride h)) = Some fromOverride"
  then have "truthy (snd (validateGitBashPath h (envOverride h)))" using validated_truthy by blast
  then show "findGitBash h customPath = Some fromOverride"
    using a by (simp add: findGitBash_def Let_def)
qed

text \<open>The theorem on the host with an override, for a valid configured path and for an
  invalid one.\<close>

theorem C7_override_precedence_witness:
  "isWin overrideHost \<and> truthy (envOverride overrideHost)
   \<and> snd (validateGitBashPath overrideHost (envOverride overrideHost)) = Some overrideBash
   \<and> GitBashPath manualConfig = Some gitBash
   \<and> snd (validateGitBashPath overrideHost (GitBashPath manualConfig)) = Some gitBash
   \<and> autoDiscoverGitBash overrideHost manualConfig = (Some overrideBash, manualConfig)
   \<and> truthy (Some gitBash)
   \<and> findGitBash overrideHost (Some gitBash) = Some gitBash
   \<and> snd (validateGitBashPath overrideHost (Some gitCmd)) = None
   \<and> findGitBash overrideHost (Some gitCmd) = Some overrideBash"
proof -
  have a: "isWin overrideHost" "truthy (envOverride overrideHost)"
    "snd (validateGitBashPath overrideHost (envOverride overrideHost)) = Some overrideBash"
    "GitBashPath manualConfig = Some gitBash"
    "snd (validateGitBashPath overrideHost (GitBashPath manualConfig)) = Some gitBash"
    "truthy (Some gitBash)"
    "snd (validateGitBashPath overrideHost (Some gitBash)) = Some gitBash"
    "snd (validateGitBashPath overrideHost (Some gitCmd)) = None"
    by code_simp+
  note A = C7_override_precedence[of overrideHost overrideBash manualConfig "Some gitBash" gitBash]
  note B = C7_override_precedence[of overrideHost overrideBash manualConfig "Some gitCmd" gitBash]
  from A a have a1: "autoDiscoverGitBash overrideHost manualConfig = (Some overrideBash, manualConfig)"
    by blast
  from A a have a2: "findGitBash overrideHost (Some gitBash) = Some gitBash" by blast
  from B a have b1: "findGitBash overrideHost (Some gitCmd) = Some overrideBash" by blast
  show ?thesis using a a1 a2 b1 by simp
qed

text \<open>
  The claim C9 as it is written fails off Windows: a configured path is not returned
  there.
\<close>

theorem C9_not_windows_counterexample:
  "GitBashPath manualConfig = Some gitBash \<and> gitBash \<noteq> []
   \<and> getGitBashPathInfo linuxHost manualConfig = (\<lparr>path = None, source = None\<rparr>, manualConfig)"
  by code_simp

text \<open>
  C9 (amended): on Windows, \<open>getGitBashPathInfo\<close> returns a non-empty configured path
  and its recorded source as they are, whatever the file system holds, and leaves the
  configuration alone; only when the configured path is absent or empty does it run
  \<open>autoDiscoverGitBash\<close>, returning its result with the source \<open>auto\<close> (or no source when
  nothing is found).  Off Windows it returns no path and no source.
\<close>

theorem C9_configured_path_not_revalidated:
  "(isWin h \<and> GitBashPath cfg = Some configured \<and> configured \<noteq> []
      \<longrightarrow> getGitBashPathInfo h cfg
            = (\<lparr>path = Some configured, source = GitBashPathSource cfg\<rparr>, cfg))
   \<and> (isWin h \<and> \<not> truthy (GitBashPath cfg)
      \<longrightarrow> getGitBashPathInfo h cfg
            = (\<lparr>path = fst (autoDiscoverGitBash h cfg),
                source = (if truthy (fst (autoDiscoverGitBash h cfg)) then Some SourceAuto else None)\<rparr>,
               snd (autoDiscoverGitBash h cfg)))
   \<and> (\<not> isWin h \<longrightarrow> getGitBashPathInfo h cfg = (\<lparr>path = None, source = None\<rparr>, cfg))"
  by (simp add: getGitBashPathInfo_def Let_def)

text \<open>The theorem on the Windows host with a configured path that no longer exists and
  is not named \<open>bash.exe\<close>, with no configured path, and on the Linux host.\<close>

theorem C9_configured_path_not_revalidated_witness:
  "isWin winHost
   \<and> GitBashPath staleConfig = Some (joinWith bs [''C:'', ''gone'', ''shell.txt''])
   \<and> joinWith bs [''C:'', ''gone'', ''shell.txt''] \<noteq> []
   \<and> \<not> fs_existsSync winHost (path_resolve winHost (joinWith bs [''C:'', ''gone'', ''shell.txt'']))
   \<and> snd (validateGitBashPath winHost (GitBashPath staleConfig)) = None
   \<and> getGitBashPathInfo winHost staleConfig
       = (\<lparr>path = Some (joinWith bs [''C:'', ''gone'', ''shell.txt'']), source = Some SourceManual\<rparr>,
          staleConfig)
   \<and> \<not> truthy (GitBashPath emptyConfig)
   \<and> getGitBashPathInfo winHost emptyConfig
       = (\<lparr>path = Some gitBash, source = Some SourceAuto\<rparr>,
          \<lparr>GitBashPath = Some gitBash, GitBashPathSource = Some SourceAuto\<rparr>)
   \<and> \<not> isWin linuxHost
   \<and> getGitBashPathInfo linuxHost emptyConfig = (\<lparr>path = None, source = None\<rparr>, emptyConfig)"
proof -
  have a: "isWin winHost"
    "GitBashPath staleConfig = Some (joinWith bs [''C:'', ''gone'', ''shell.txt''])"
    "joinWith bs [''C:'', ''gone'', ''shell.txt''] \<noteq> []"
    "\<not> fs_existsSync winHost (path_resolve winHost (joinWith bs [''C:'', ''gone'', ''shell.txt'']))"
    "snd (validateGitBashPath winHost (GitBashPath staleConfig)) = None"
    "\<not> truthy (GitBashPath emptyConfig)" "\<not> isWin linuxHost"
    "GitBashPathSource staleConfig = Some SourceManual"
    by code_simp+
  have d: "autoDiscoverGitBash winHost emptyConfig
      = (Some gitBash, \<lparr>GitBashPath = Some gitBash, GitBashPathSource = Some SourceAuto\<rparr>)"
    by code_simp
  have t: "truthy (Some gitBash)" by code_simp
  note S = C9_configured_path_not_revalidated[of winHost staleConfig
      "joinWith bs [''C:'', ''gone'', ''shell.txt'']"]
  note E = C9_configured_path_not_revalidated[of winHost emptyConfig "[]"]
  note L = C9_configured_path_not_revalidated[of linuxHost emptyConfig "[]"]
  from S a have s1: "getGitBashPathInfo winHost staleConfig
       = (\<lparr>path = Some (joinWith bs [''C:'', ''gone'', ''shell.txt'']), source = Some SourceManual\<rparr>,
          staleConfig)" by simp
  from E a have e1: "getGitBashPathInfo winHost emptyConfig
       = (\<lparr>path = fst (autoDiscoverGitBash winHost emptyConfig),
           source = (if truthy (fst (autoDiscoverGitBash winHost emptyConfig)) then Some SourceAuto else None)\<rparr>,
          snd (autoDiscoverGitBash winHost emptyConfig))" by blast
  from L a have l1: "getGitBashPathInfo linuxHost emptyConfig = (\<lparr>path = None, source = None\<rparr>, emptyConfig)"
    by blast
  have e2: "getGitBashPathInfo winHost emptyConfig
       = (\<lparr>path = Some gitBash, source = Some SourceAuto\<rparr>,
          \<lparr>GitBashPath = Some gitBash, GitBashPathSource = Some SourceAuto\<rparr>)"
    unfolding e1 d using t by simp
  show ?thesis using a s1 e2 l1 by simp
qed

end
